theory Spec2Isabelle
  imports Main "HOL-Library.Char_ord" "HOL-Library.List_Lexorder" "HOL-Library.Sublist"
begin

section \<open>The intent compiler of \<^verbatim>\<open>BIG_automatique/config_script.py\<close>\<close>

text \<open>
  The script reads a JSON intent document, allocates loopback and link addresses, indexes
  the links by router and writes one configuration file per router. The embedding below
  follows the script function by function. A call of \<^verbatim>\<open>ensure\<close> that fails, a
  \<^verbatim>\<open>raise SystemExit\<close> and an uncaught Python exception all end the run; they are the
  \<open>Inl\<close> results of the model.
\<close>

datatype error =
    InvalidPrefixLength     \<comment> \<open>\<^verbatim>\<open>... must be /64, got /n\<close>\<close>
  | EmptyRouterSet          \<comment> \<open>\<^verbatim>\<open>AS n must define a non-empty routers list\<close>\<close>
  | MissingSubnet           \<comment> \<open>\<^verbatim>\<open>Link l missing subnet_v6\<close>\<close>
  | EndpointCountMismatch   \<comment> \<open>\<^verbatim>\<open>Link l must have exactly 2 endpoints\<close>\<close>
  | DuplicateInterfaceUse   \<comment> \<open>\<^verbatim>\<open>Interface reused: r:i\<close>\<close>
  | RouterNotOnLink         \<comment> \<open>\<^verbatim>\<open>Router r not in l\<close>\<close>
  | UnsupportedIGPType      \<comment> \<open>\<^verbatim>\<open>Unsupported IGP type: t\<close>\<close>
  | KeyError
  | IndexError
  | ValueError

text \<open>Sequencing of steps that may fail: the first failure ends the run.\<close>

definition and_then :: "error + 'a \<Rightarrow> ('a \<Rightarrow> error + 'b) \<Rightarrow> error + 'b" where
  "and_then m f = (case m of Inl e \<Rightarrow> Inl e | Inr v \<Rightarrow> f v)"

text \<open>\<^verbatim>\<open>d[k]\<close> on a dictionary: the value of a key that may be absent.\<close>

definition require :: "'v option \<Rightarrow> error + 'v" where
  "require v = (case v of None \<Rightarrow> Inl KeyError | Some x \<Rightarrow> Inr x)"

definition lookup :: "('k \<rightharpoonup> 'v) \<Rightarrow> 'k \<Rightarrow> error + 'v" where
  "lookup d k = require (d k)"

subsection \<open>Strings\<close>

text \<open>
  Python strings are modelled as \<^typ>\<open>string\<close>. The order of \<^verbatim>\<open>sorted\<close> on strings is
  the lexicographic order on code points, here the lexicographic order on characters.
\<close>

text \<open>\<^verbatim>\<open>s.split(c)\<close> for a separator of one character.\<close>

fun split :: "char \<Rightarrow> string \<Rightarrow> string list" where
  "split c [] = [[]]"
| "split c (x # xs) =
     (if x = c then [] # split c xs
      else (case split c xs of [] \<Rightarrow> [[x]] | p # ps \<Rightarrow> (x # p) # ps))"

text \<open>\<^verbatim>\<open>sep.join(xs)\<close>.\<close>

fun join :: "string \<Rightarrow> string list \<Rightarrow> string" where
  "join sep [] = []"
| "join sep [x] = x"
| "join sep (x # y # ys) = x @ sep @ join sep (y # ys)"

text \<open>\<^verbatim>\<open>s.strip()\<close>, for the ASCII white space characters.\<close>

definition is_space :: "char \<Rightarrow> bool" where
  "is_space c = (of_char c \<in> {9, 10, 11, 12, 13, 28, 29, 30, 31, 32 :: nat})"

definition strip :: "string \<Rightarrow> string" where
  "strip s = rev (dropWhile is_space (rev (dropWhile is_space s)))"

text \<open>The decimal and the hexadecimal text of a number, as \<^verbatim>\<open>str(n)\<close> and \<^verbatim>\<open>'%x' % n\<close>.\<close>

definition digit_char :: "nat \<Rightarrow> char" where
  "digit_char d = ''0123456789abcdef'' ! d"

fun str_nat :: "nat \<Rightarrow> string" where
  "str_nat n = (if n < 10 then [digit_char n] else str_nat (n div 10) @ [digit_char (n mod 10)])"

declare str_nat.simps [simp del]

definition str_int :: "int \<Rightarrow> string" where
  "str_int i = (if i < 0 then CHR ''-'' # str_nat (nat (- i)) else str_nat (nat i))"

fun hex_nat :: "nat \<Rightarrow> string" where
  "hex_nat n = (if n < 16 then [digit_char n] else hex_nat (n div 16) @ [digit_char (n mod 16)])"

declare hex_nat.simps [simp del]

definition is_digit :: "char \<Rightarrow> bool" where
  "is_digit c = (48 \<le> (of_char c :: nat) \<and> (of_char c :: nat) \<le> 57)"

definition is_hex_digit :: "char \<Rightarrow> bool" where
  "is_hex_digit c = (is_digit c \<or> c \<in> set ''abcdefABCDEF'')"

definition hex_digit_value :: "char \<Rightarrow> nat" where
  "hex_digit_value c =
     (if is_digit c then of_char c - 48
      else if c \<in> set ''abcdef'' then of_char c - 87
      else of_char c - 55)"

text \<open>\<^verbatim>\<open>int(s, base)\<close> on a string of digits of that base.\<close>

definition int_of_digits :: "nat \<Rightarrow> string \<Rightarrow> nat" where
  "int_of_digits base s = foldl (\<lambda>a c. base * a + hex_digit_value c) 0 s"

subsection \<open>The standard library's \<^verbatim>\<open>ipaddress\<close>\<close>

text \<open>
  An \<^verbatim>\<open>IPv6Address\<close> is modelled by its integer, an \<^verbatim>\<open>IPv6Network\<close> by its network
  address and prefix length. Parsing follows CPython 3.11: hextets with at most one
  \<^verbatim>\<open>::\<close>, an optional dotted IPv4 tail, an optional zone after \<^verbatim>\<open>%\<close> (which address
  arithmetic drops), and the strict check that no host bit is set. Every failure of the
  library is a \<^verbatim>\<open>ValueError\<close>.
\<close>

record ipv6network =
  network_address :: nat
  prefixlen :: nat

definition parse_octet :: "string \<Rightarrow> error + nat" where
  "parse_octet s =
     (if s = [] then Inl ValueError
      else if \<not> list_all is_digit s then Inl ValueError
      else if length s > 3 then Inl ValueError
      else if s \<noteq> ''0'' \<and> hd s = CHR ''0'' then Inl ValueError
      else if int_of_digits 10 s > 255 then Inl ValueError
      else Inr (int_of_digits 10 s))"

fun sequence :: "(error + 'a) list \<Rightarrow> error + 'a list" where
  "sequence [] = Inr []"
| "sequence (Inl e # xs) = Inl e"
| "sequence (Inr v # xs) = (case sequence xs of Inl e \<Rightarrow> Inl e | Inr vs \<Rightarrow> Inr (v # vs))"

definition ipv4_int_from_string :: "string \<Rightarrow> error + nat" where
  "ipv4_int_from_string s =
     (if s = [] then Inl ValueError
      else let octets = split CHR ''.'' s in
        if length octets \<noteq> 4 then Inl ValueError
        else and_then (sequence (map parse_octet octets))
               (\<lambda>os. Inr (foldl (\<lambda>a b. 256 * a + b) 0 os)))"

definition parse_hextet :: "string \<Rightarrow> error + nat" where
  "parse_hextet s =
     (if \<not> list_all is_hex_digit s then Inl ValueError
      else if length s > 4 then Inl ValueError
      else if s = [] then Inl ValueError
      else Inr (int_of_digits 16 s))"

text \<open>A dotted IPv4 tail is replaced by its two hextets.\<close>

definition convert_ipv4_suffix :: "string list \<Rightarrow> error + string list" where
  "convert_ipv4_suffix parts =
     (if CHR ''.'' \<in> set (last parts) then
        and_then (ipv4_int_from_string (last parts))
          (\<lambda>v4. Inr (butlast parts @ [hex_nat ((v4 div 65536) mod 65536), hex_nat (v4 mod 65536)]))
      else Inr parts)"

text \<open>
  The two loops that shift the parsed hextets into the integer: \<^verbatim>\<open>parts_hi\<close> parts from
  the front, a gap of \<^verbatim>\<open>parts_skipped\<close> zero hextets, \<^verbatim>\<open>parts_lo\<close> parts from the back.
\<close>

definition shift_hextets :: "nat \<Rightarrow> nat list \<Rightarrow> nat" where
  "shift_hextets ip hs = foldl (\<lambda>a h. a * 65536 + h) ip hs"

definition parse_parts :: "string list \<Rightarrow> nat \<Rightarrow> nat \<Rightarrow> nat \<Rightarrow> error + nat" where
  "parse_parts parts parts_hi parts_skipped parts_lo =
     and_then (sequence (map parse_hextet (take parts_hi parts)))
       (\<lambda>his. and_then (sequence (map parse_hextet (drop (length parts - parts_lo) parts)))
          (\<lambda>los. Inr (shift_hextets (shift_hextets 0 his * 2 ^ (16 * parts_skipped)) los)))"

text \<open>The address has a \<^verbatim>\<open>::\<close> at \<open>skip_index\<close>, which may also cover an end.\<close>

definition parse_with_skip :: "string list \<Rightarrow> nat \<Rightarrow> error + nat" where
  "parse_with_skip parts skip_index =
     (let hi0 = skip_index;
          lo0 = length parts - skip_index - 1;
          parts_hi = (if hd parts = [] then hi0 - 1 else hi0);
          parts_lo = (if last parts = [] then lo0 - 1 else lo0)
      in if hd parts = [] \<and> parts_hi \<noteq> 0 then Inl ValueError
         else if last parts = [] \<and> parts_lo \<noteq> 0 then Inl ValueError
         else if 8 < parts_hi + parts_lo + 1 then Inl ValueError
         else parse_parts parts parts_hi (8 - (parts_hi + parts_lo)) parts_lo)"

definition parse_without_skip :: "string list \<Rightarrow> error + nat" where
  "parse_without_skip parts =
     (if length parts \<noteq> 8 then Inl ValueError
      else if hd parts = [] then Inl ValueError
      else if last parts = [] then Inl ValueError
      else parse_parts parts (length parts) 0 0)"

definition ip_int_from_string :: "string \<Rightarrow> error + nat" where
  "ip_int_from_string ip_str =
     (if ip_str = [] then Inl ValueError
      else let parts0 = split CHR '':'' ip_str in
        if length parts0 < 3 then Inl ValueError
        else and_then (convert_ipv4_suffix parts0)
          (\<lambda>parts.
             if length parts > 9 then Inl ValueError
             else let skips = filter (\<lambda>i. parts ! i = []) [1 ..< length parts - 1] in
               if length skips > 1 then Inl ValueError
               else if skips \<noteq> [] then parse_with_skip parts (hd skips)
               else parse_without_skip parts))"

text \<open>\<^verbatim>\<open>IPv6Address(s)\<close> for a string: the zone is split off and dropped.\<close>

definition IPv6Address :: "string \<Rightarrow> error + nat" where
  "IPv6Address s =
     (let addr = takeWhile (\<lambda>c. c \<noteq> CHR ''%'') s;
          rest = dropWhile (\<lambda>c. c \<noteq> CHR ''%'') s
      in if rest \<noteq> [] \<and> (tl rest = [] \<or> CHR ''%'' \<in> set (tl rest)) then Inl ValueError
         else ip_int_from_string addr)"

definition prefix_from_prefix_string :: "string \<Rightarrow> error + nat" where
  "prefix_from_prefix_string s =
     (if s = [] \<or> \<not> list_all is_digit s then Inl ValueError
      else if int_of_digits 10 s > 128 then Inl ValueError
      else Inr (int_of_digits 10 s))"

text \<open>\<^verbatim>\<open>IPv6Network(s)\<close> with \<^verbatim>\<open>strict=True\<close>.\<close>

definition IPv6Network :: "string \<Rightarrow> error + ipv6network" where
  "IPv6Network s =
     (let addr = split CHR ''/'' s in
        if length addr > 2 then Inl ValueError
        else and_then (IPv6Address (hd addr))
          (\<lambda>packed.
             and_then (if length addr = 2 then prefix_from_prefix_string (addr ! 1) else Inr 128)
               (\<lambda>plen.
                  if packed mod 2 ^ (128 - plen) \<noteq> 0 then Inl ValueError
                  else Inr \<lparr>network_address = packed, prefixlen = plen\<rparr>)))"

text \<open>
  \<^verbatim>\<open>str(IPv6Address(n))\<close>: the eight hextets in lower-case hexadecimal, the first longest
  run of at least two zero hextets replaced by \<^verbatim>\<open>::\<close>.
\<close>

definition hextets_of :: "nat \<Rightarrow> string list" where
  "hextets_of ip = map (\<lambda>i. hex_nat ((ip div 2 ^ (16 * (7 - i))) mod 65536)) [0 ..< 8]"

text \<open>
  The scan of \<^verbatim>\<open>_compress_hextets\<close>; its state is (best start, best length, current
  start, current length), with start \<open>-1\<close> for none.
\<close>

fun scan_zeros :: "string list \<Rightarrow> int \<Rightarrow> int \<times> int \<times> int \<times> int \<Rightarrow> int \<times> int \<times> int \<times> int" where
  "scan_zeros [] index st = st"
| "scan_zeros (hextet # hs) index (best_start, best_len, start, len) =
     (if hextet = ''0'' then
        (let len' = len + 1;
             start' = (if start = - 1 then index else start)
         in if len' > best_len then scan_zeros hs (index + 1) (start', len', start', len')
            else scan_zeros hs (index + 1) (best_start, best_len, start', len'))
      else scan_zeros hs (index + 1) (best_start, best_len, - 1, 0))"

definition compress_hextets :: "string list \<Rightarrow> string list" where
  "compress_hextets hextets =
     (case scan_zeros hextets 0 (- 1, 0, - 1, 0) of
        (best_start, best_len, _, _) \<Rightarrow>
          if best_len > 1 then
            (let best_end = best_start + best_len;
                 hs1 = (if best_end = int (length hextets) then hextets @ [[]] else hextets);
                 hs2 = take (nat best_start) hs1 @ [[]] @ drop (nat best_end) hs1
             in if best_start = 0 then [] # hs2 else hs2)
          else hextets)"

definition str_IPv6Address :: "nat \<Rightarrow> string" where
  "str_IPv6Address ip = join '':'' (compress_hextets (hextets_of ip))"

text \<open>
  A run of zero hextets, as the scan finds it, and the way back from a compressed list:
  zeros are put where the empty strings stand. This is what makes the text of an address
  determine the address.
\<close>

definition zero_run :: "string list \<Rightarrow> int \<Rightarrow> int \<Rightarrow> bool" where
  "zero_run hextets start len =
     (0 \<le> start \<and> 0 \<le> len \<and> start + len \<le> int (length hextets) \<and>
      (\<forall>j. start \<le> j \<and> j < start + len \<longrightarrow> hextets ! nat j = ''0''))"

definition expand_hextets :: "string list \<Rightarrow> string list" where
  "expand_hextets cs =
     (let front = takeWhile (\<lambda>h. h \<noteq> []) cs;
          back = filter (\<lambda>h. h \<noteq> []) (dropWhile (\<lambda>h. h \<noteq> []) cs)
      in front @ replicate (8 - (length front + length back)) ''0'' @ back)"


text \<open>
  \<^verbatim>\<open>a + n\<close> on an address builds a new address from the integer, which fails when the
  integer does not fit 128 bits.
\<close>

definition add_IPv6Address :: "nat \<Rightarrow> nat \<Rightarrow> error + nat" where
  "add_IPv6Address a n = (if a + n < 2 ^ 128 then Inr (a + n) else Inl ValueError)"

subsection \<open>The intent document\<close>

text \<open>
  The parsed JSON document. A key that the script reads with \<^verbatim>\<open>.get\<close> or tests with
  \<^verbatim>\<open>in\<close> is an optional field. Objects that the script iterates over (\<^verbatim>\<open>ases\<close>,
  \<^verbatim>\<open>routers\<close>) are association lists in document order. AS identifiers are decimal
  numerals, for which \<^verbatim>\<open>str(int(a)) == a\<close>, and are modelled by their number;
  \<^verbatim>\<open>process_id\<close> and \<^verbatim>\<open>area\<close> stand for the text that an f-string prints for them.
\<close>

record endpoint =
  router :: string
  interface :: string

record link =
  name :: "string option"
  link_type :: "string option"
  subnet_v6 :: "string option"
  endpoints :: "endpoint list"
  relationship :: "string option"
  link_as :: "nat option"
  ospf_cost :: "int option"

record igp_conf =
  igp_type :: string
  process_id :: "string option"
  area :: "string option"
  process_name :: "string option"

record asdata =
  loopbacks_pool :: string
  as_routers :: "string list option"
  igp :: igp_conf

record router_conf =
  router_as :: nat
  router_id :: string

record bgp_conf =
  required :: "bool option"
  ibgp_mode :: "string option"

record intent =
  ases :: "(nat \<times> asdata) list"
  routers :: "(string \<times> router_conf) list"
  links :: "link list"
  bgp :: "bgp_conf option"

type_synonym loopback_table = "string \<rightharpoonup> string"
type_synonym link_ip_table = "string \<times> string \<rightharpoonup> string"
type_synonym adjacency_index = "string \<rightharpoonup> link list"

definition ip_no_prefix :: "string \<Rightarrow> string" where
  "ip_no_prefix addr = strip (hd (split CHR ''/'' addr))"

subsection \<open>Address allocation\<close>

text \<open>The inner loop of \<^verbatim>\<open>allocate_loopbacks\<close>: \<^verbatim>\<open>enumerate(routers, start=1)\<close>.\<close>

fun assign_loopbacks :: "nat \<Rightarrow> nat \<Rightarrow> string list \<Rightarrow> loopback_table \<Rightarrow> error + loopback_table" where
  "assign_loopbacks base idx [] out = Inr out"
| "assign_loopbacks base idx (rname # rest) out =
     and_then (add_IPv6Address base idx)
       (\<lambda>a. assign_loopbacks base (idx + 1) rest (out(rname \<mapsto> str_IPv6Address a @ ''/128'')))"

text \<open>\<^verbatim>\<open>asdata.get("routers", [])\<close>.\<close>

definition get_routers :: "asdata \<Rightarrow> string list" where
  "get_routers asd = (case as_routers asd of None \<Rightarrow> [] | Some rs \<Rightarrow> rs)"

fun allocate_loopbacks_loop :: "(nat \<times> asdata) list \<Rightarrow> loopback_table \<Rightarrow> error + loopback_table" where
  "allocate_loopbacks_loop [] out = Inr out"
| "allocate_loopbacks_loop ((asn, asd) # rest) out =
     and_then (IPv6Network (loopbacks_pool asd))
       (\<lambda>pool.
          if prefixlen pool \<noteq> 64 then Inl InvalidPrefixLength
          else let base = network_address pool;
                   rs = get_routers asd
               in if rs = [] then Inl EmptyRouterSet
                  else and_then (assign_loopbacks base 1 rs out) (allocate_loopbacks_loop rest))"

text \<open>
  An AS that passes the checks of \<^verbatim>\<open>allocate_loopbacks\<close>: its pool is a /64 and its router
  list is not empty. A Python list has fewer than \<open>2 ^ 64\<close> elements.
\<close>

definition valid_as :: "asdata \<Rightarrow> bool" where
  "valid_as asd =
     ((case IPv6Network (loopbacks_pool asd) of Inl e \<Rightarrow> False | Inr pool \<Rightarrow> prefixlen pool = 64) \<and>
      get_routers asd \<noteq> [] \<and> length (get_routers asd) < 2 ^ 64)"

definition allocate_loopbacks :: "intent \<Rightarrow> error + loopback_table" where
  "allocate_loopbacks intent = allocate_loopbacks_loop (ases intent) Map.empty"

text \<open>One iteration of the loop of \<^verbatim>\<open>allocate_link_ips\<close>.\<close>

definition allocate_link :: "link \<Rightarrow> link_ip_table \<Rightarrow> error + link_ip_table" where
  "allocate_link l out =
     (case subnet_v6 l of
        None \<Rightarrow> Inl MissingSubnet
      | Some subnet_str \<Rightarrow>
          if subnet_str = [] then Inl MissingSubnet
          else and_then (IPv6Network subnet_str)
            (\<lambda>net.
               if prefixlen net \<noteq> 64 then Inl InvalidPrefixLength
               else let eps = endpoints l in
                 if length eps \<noteq> 2 then Inl EndpointCountMismatch
                 else let r0 = router (eps ! 0); i0 = interface (eps ! 0);
                          r1 = router (eps ! 1); i1 = interface (eps ! 1)
                   in if out (r0, i0) \<noteq> None then Inl DuplicateInterfaceUse
                      else if out (r1, i1) \<noteq> None then Inl DuplicateInterfaceUse
                      else and_then (add_IPv6Address (network_address net) 1)
                        (\<lambda>a1. and_then (add_IPv6Address (network_address net) 2)
                           (\<lambda>a2. Inr (out((r0, i0) \<mapsto> str_IPv6Address a1 @ ''/64'',
                                           (r1, i1) \<mapsto> str_IPv6Address a2 @ ''/64''))))))"

text \<open>The (router, interface) pairs that a link claims.\<close>

definition endpoint_keys :: "link \<Rightarrow> (string \<times> string) set" where
  "endpoint_keys l = (\<lambda>e. (router e, interface e)) ` set (endpoints l)"

fun allocate_link_ips_loop :: "link list \<Rightarrow> link_ip_table \<Rightarrow> error + link_ip_table" where
  "allocate_link_ips_loop [] out = Inr out"
| "allocate_link_ips_loop (l # rest) out =
     and_then (allocate_link l out) (allocate_link_ips_loop rest)"

definition allocate_link_ips :: "intent \<Rightarrow> error + link_ip_table" where
  "allocate_link_ips intent = allocate_link_ips_loop (links intent) Map.empty"

subsection \<open>Adjacency\<close>

text \<open>\<^verbatim>\<open>adj.setdefault(ep["router"], []).append(link)\<close>.\<close>

definition adj_append :: "link \<Rightarrow> endpoint \<Rightarrow> adjacency_index \<Rightarrow> adjacency_index" where
  "adj_append l ep adj =
     adj(router ep \<mapsto> (case adj (router ep) of None \<Rightarrow> [] | Some ls \<Rightarrow> ls) @ [l])"

definition adjacency :: "intent \<Rightarrow> adjacency_index" where
  "adjacency intent = fold (\<lambda>l adj. fold (adj_append l) (endpoints l) adj) (links intent) Map.empty"

text \<open>\<^verbatim>\<open>adj.get(rname, [])\<close>.\<close>

definition adj_get :: "adjacency_index \<Rightarrow> string \<Rightarrow> link list" where
  "adj_get adj rname = (case adj rname of None \<Rightarrow> [] | Some ls \<Rightarrow> ls)"

definition get_endpoint_for_router :: "link \<Rightarrow> string \<Rightarrow> error + endpoint" where
  "get_endpoint_for_router l rname =
     (let eps = endpoints l in
        if length eps < 1 then Inl IndexError
        else if router (eps ! 0) = rname then Inr (eps ! 0)
        else if length eps < 2 then Inl IndexError
        else if router (eps ! 1) = rname then Inr (eps ! 1)
        else Inl RouterNotOnLink)"

definition other_endpoint :: "link \<Rightarrow> string \<Rightarrow> error + endpoint" where
  "other_endpoint l rname =
     (let eps = endpoints l in
        if length eps < 1 then Inl IndexError
        else if router (eps ! 0) = rname then
          (if length eps < 2 then Inl IndexError else Inr (eps ! 1))
        else if length eps < 2 then Inl IndexError
        else if router (eps ! 1) = rname then Inr (eps ! 0)
        else Inl RouterNotOnLink)"

subsection \<open>IGP stanzas\<close>

definition igp_global :: "asdata \<Rightarrow> string \<Rightarrow> error + string list" where
  "igp_global asd rid =
     (let t = igp_type (igp asd) in
        if t = ''none'' then Inr [''!'']
        else if t = ''ospfv3'' then
          and_then (require (process_id (igp asd)))
            (\<lambda>pid. Inr [''ipv6 router ospf '' @ pid, '' router-id '' @ rid, ''exit'', ''!''])
        else if t = ''ripng'' then
          (let proc = (case process_name (igp asd) of None \<Rightarrow> ''RIPNG'' | Some p \<Rightarrow> p)
           in Inr [''ipv6 router rip '' @ proc, ''exit'', ''!''])
        else Inl UnsupportedIGPType)"

definition igp_iface_lines :: "asdata \<Rightarrow> link \<Rightarrow> error + string list" where
  "igp_iface_lines asd l =
     (let t = igp_type (igp asd) in
        if t = ''none'' then Inr []
        else if t = ''ospfv3'' then
          and_then (require (process_id (igp asd)))
            (\<lambda>pid. and_then (require (area (igp asd)))
               (\<lambda>ar. Inr (['' ipv6 ospf '' @ pid @ '' area '' @ ar] @
                           (case ospf_cost l of
                              None \<Rightarrow> []
                            | Some c \<Rightarrow> ['' ipv6 ospf cost '' @ str_int c]))))
        else if t = ''ripng'' then
          (let proc = (case process_name (igp asd) of None \<Rightarrow> ''RIPNG'' | Some p \<Rightarrow> p)
           in Inr ['' ipv6 rip '' @ proc @ '' enable''])
        else Inl UnsupportedIGPType)"


subsection \<open>BGP helpers\<close>

fun has_ebgp_neighbor_loop :: "link list \<Rightarrow> string \<Rightarrow> error + bool" where
  "has_ebgp_neighbor_loop [] rname = Inr False"
| "has_ebgp_neighbor_loop (l # rest) rname =
     (if link_type l \<noteq> Some ''inter_as'' then has_ebgp_neighbor_loop rest rname
      else let eps = endpoints l in
        if length eps < 1 then Inl IndexError
        else if router (eps ! 0) = rname then Inr True
        else if length eps < 2 then Inl IndexError
        else if router (eps ! 1) = rname then Inr True
        else has_ebgp_neighbor_loop rest rname)"

definition has_ebgp_neighbor :: "intent \<Rightarrow> string \<Rightarrow> error + bool" where
  "has_ebgp_neighbor intent rname = has_ebgp_neighbor_loop (links intent) rname"

text \<open>The set of the subnets of the \<^verbatim>\<open>intra_as\<close> links that belong to an AS.\<close>

definition add_intra_as_prefix :: "nat \<Rightarrow> link \<Rightarrow> string set \<Rightarrow> string set" where
  "add_intra_as_prefix asn l prefs =
     (if link_type l \<noteq> Some ''intra_as'' then prefs
      else if link_as l \<noteq> Some asn then prefs
      else (case subnet_v6 l of
              None \<Rightarrow> prefs
            | Some subnet \<Rightarrow> if subnet = [] then prefs else insert subnet prefs))"

definition intra_as_prefixes_for_as :: "intent \<Rightarrow> nat \<Rightarrow> string set" where
  "intra_as_prefixes_for_as intent asn = fold (add_intra_as_prefix asn) (links intent) {}"

definition loopbacks_for_as :: "intent \<Rightarrow> loopback_table \<Rightarrow> nat \<Rightarrow> error + string list" where
  "loopbacks_for_as intent loopbacks asn =
     and_then (lookup (map_of (ases intent)) asn)
       (\<lambda>asd. and_then (require (as_routers asd))
          (\<lambda>rs. sequence (map (lookup loopbacks) rs)))"

fun relationship_loop :: "link list \<Rightarrow> string \<Rightarrow> (string \<rightharpoonup> string) \<Rightarrow> error + (string \<rightharpoonup> string)" where
  "relationship_loop [] rname rel = Inr rel"
| "relationship_loop (l # rest) rname rel =
     (if link_type l \<noteq> Some ''inter_as'' then relationship_loop rest rname rel
      else and_then (other_endpoint l rname)
        (\<lambda>other. relationship_loop rest rname
           (rel(router other \<mapsto> (case relationship l of None \<Rightarrow> ''peer'' | Some r \<Rightarrow> r)))))"

definition get_interas_relationship_for_router ::
    "intent \<Rightarrow> string \<Rightarrow> adjacency_index \<Rightarrow> error + (string \<rightharpoonup> string)" where
  "get_interas_relationship_for_router intent rname adj =
     relationship_loop (adj_get adj rname) rname Map.empty"

subsection \<open>BGP and policies\<close>

text \<open>
  The order in which Python enumerates a \<^verbatim>\<open>set\<close> of strings depends on the hash seed of
  the run. It is a parameter \<open>iter\<close> of the model: \<open>iter S\<close> lists the elements of \<open>S\<close>,
  each once, in the order of the run.
\<close>

type_synonym set_order = "string set \<Rightarrow> string list"

definition set_iteration :: "set_order \<Rightarrow> bool" where
  "set_iteration iter = (\<forall>S. finite S \<longrightarrow> set (iter S) = S \<and> distinct (iter S))"

text \<open>The interior peers: the loopback addresses of the other routers of the AS.\<close>

definition ibgp_peers_of ::
    "intent \<Rightarrow> bgp_conf \<Rightarrow> nat \<Rightarrow> string \<Rightarrow> loopback_table \<Rightarrow> error + string list" where
  "ibgp_peers_of intent b my_asn rname loopbacks =
     (if (case ibgp_mode b of None \<Rightarrow> ''full_mesh'' | Some m \<Rightarrow> m) = ''full_mesh'' then
        and_then (lookup (map_of (ases intent)) my_asn)
          (\<lambda>asd. and_then (require (as_routers asd))
             (\<lambda>rs. sequence (map (\<lambda>peer. and_then (lookup loopbacks peer)
                                            (\<lambda>lb. Inr (ip_no_prefix lb)))
                                (filter (\<lambda>peer. peer \<noteq> rname) rs))))
      else Inr [])"

text \<open>The exterior peers (address, AS number, router), one per distinct address.\<close>

fun ebgp_peers_loop ::
    "intent \<Rightarrow> link_ip_table \<Rightarrow> string \<Rightarrow> link list \<Rightarrow> (string \<times> nat \<times> string) list
     \<Rightarrow> error + (string \<times> nat \<times> string) list" where
  "ebgp_peers_loop intent link_ips rname [] ebgp_peers = Inr ebgp_peers"
| "ebgp_peers_loop intent link_ips rname (l # rest) ebgp_peers =
     (if link_type l \<noteq> Some ''inter_as'' then ebgp_peers_loop intent link_ips rname rest ebgp_peers
      else and_then (other_endpoint l rname)
        (\<lambda>other. and_then (lookup (map_of (routers intent)) (router other))
           (\<lambda>peer. and_then (lookup link_ips (router other, interface other))
              (\<lambda>addr.
                 let peer_ip = ip_no_prefix addr in
                   if peer_ip \<in> set (map fst ebgp_peers)
                   then ebgp_peers_loop intent link_ips rname rest ebgp_peers
                   else ebgp_peers_loop intent link_ips rname rest
                          (ebgp_peers @ [(peer_ip, router_as peer, router other)])))))"

definition ibgp_neighbor_lines :: "nat \<Rightarrow> string \<Rightarrow> string list" where
  "ibgp_neighbor_lines my_asn peer_lb =
     ['' neighbor '' @ peer_lb @ '' remote-as '' @ str_nat my_asn,
      '' neighbor '' @ peer_lb @ '' update-source Loopback0'']"

definition ebgp_neighbor_line :: "string \<times> nat \<times> string \<Rightarrow> string" where
  "ebgp_neighbor_line p = (case p of (peer_ip, peer_asn, peer_router) \<Rightarrow>
     '' neighbor '' @ peer_ip @ '' remote-as '' @ str_nat peer_asn)"

definition ibgp_activate_lines :: "bool \<Rightarrow> string \<Rightarrow> string list" where
  "ibgp_activate_lines border peer_lb =
     [''  neighbor '' @ peer_lb @ '' activate''] @
     (if border then [''  neighbor '' @ peer_lb @ '' next-hop-self''] else []) @
     [''  neighbor '' @ peer_lb @ '' send-community'']"

definition ebgp_activate_lines :: "string \<times> nat \<times> string \<Rightarrow> string list" where
  "ebgp_activate_lines p = (case p of (peer_ip, peer_asn, peer_router) \<Rightarrow>
     [''  neighbor '' @ peer_ip @ '' activate'',
      ''  neighbor '' @ peer_ip @ '' send-community''])"

definition network_line :: "string \<Rightarrow> string" where
  "network_line pfx = ''  network '' @ pfx"

text \<open>The loop that numbers the entries of the prefix-list, \<^verbatim>\<open>seq += 10\<close>.\<close>

fun prefix_list_entries :: "nat \<Rightarrow> string list \<Rightarrow> string list" where
  "prefix_list_entries seq [] = []"
| "prefix_list_entries seq (pfx # rest) =
     (''ipv6 prefix-list PL-SELF seq '' @ str_nat seq @ '' permit '' @ pfx) #
     prefix_list_entries (seq + 10) rest"

definition route_map_lines :: "nat \<Rightarrow> string list" where
  "route_map_lines my_asn =
     [''route-map RM-IN-CLIENT permit 10'',
      '' set community '' @ str_nat my_asn @ '':100'' @ '' additive'',
      '' set local-preference 200'',
      ''!'',
      ''route-map RM-IN-PEER permit 10'',
      '' set community '' @ str_nat my_asn @ '':200'' @ '' additive'',
      '' set local-preference 150'',
      ''!'',
      ''route-map RM-IN-PROV permit 10'',
      '' set community '' @ str_nat my_asn @ '':300'' @ '' additive'',
      '' set local-preference 50'',
      ''!'',
      ''route-map RM-OUT-PEERPROV permit 10'',
      '' match ipv6 address prefix-list PL-SELF'',
      '' set community '' @ str_nat my_asn @ '':50'' @ '' additive'',
      ''!'',
      ''route-map RM-OUT-PEERPROV permit 20'',
      '' match community COMM-CLIENT'',
      ''!'',
      ''route-map RM-OUT-PEERPROV deny 100'',
      ''!'',
      ''route-map RM-OUT-CLIENT permit 10'',
      ''!'',
      ''router bgp '' @ str_nat my_asn,
      '' address-family ipv6 unicast'']"

text \<open>The route-maps attached to one exterior neighbor.\<close>

definition attach_route_maps :: "(string \<rightharpoonup> string) \<Rightarrow> string \<times> nat \<times> string \<Rightarrow> string list" where
  "attach_route_maps relmap p = (case p of (peer_ip, peer_asn, peer_router) \<Rightarrow>
     (let rel = (case relmap peer_router of None \<Rightarrow> ''peer'' | Some r \<Rightarrow> r) in
        if rel = ''client'' then
          [''  neighbor '' @ peer_ip @ '' route-map RM-OUT-CLIENT out'',
           ''  neighbor '' @ peer_ip @ '' route-map RM-IN-CLIENT in'']
        else if rel = ''provider'' then
          [''  neighbor '' @ peer_ip @ '' route-map RM-OUT-PEERPROV out'',
           ''  neighbor '' @ peer_ip @ '' route-map RM-IN-PROV in'']
        else
          [''  neighbor '' @ peer_ip @ '' route-map RM-OUT-PEERPROV out'',
           ''  neighbor '' @ peer_ip @ '' route-map RM-IN-PEER in'']))"

text \<open>
  The lines of \<^verbatim>\<open>build_bgp\<close> up to and including the network statements; \<open>border_nets\<close>
  are the statements that only a border router adds.
\<close>

definition bgp_session_lines ::
    "nat \<Rightarrow> string \<Rightarrow> bool \<Rightarrow> string list \<Rightarrow> (string \<times> nat \<times> string) list \<Rightarrow> string list" where
  "bgp_session_lines my_asn rid border ibgp_peers ebgp_peers =
     [''router bgp '' @ str_nat my_asn,
      '' bgp router-id '' @ rid,
      '' bgp log-neighbor-changes'',
      '' no bgp default ipv4-unicast''] @
     concat (map (ibgp_neighbor_lines my_asn) ibgp_peers) @
     map ebgp_neighbor_line ebgp_peers @
     ['' !'', '' address-family ipv6 unicast''] @
     concat (map (ibgp_activate_lines border) ibgp_peers) @
     concat (map ebgp_activate_lines ebgp_peers)"

definition policy_object_lines :: "nat \<Rightarrow> string list \<Rightarrow> string list" where
  "policy_object_lines my_asn self_sorted =
     ['' exit-address-family'', ''!'',
      ''ip community-list standard COMM-SELF permit '' @ str_nat my_asn @ '':50'',
      ''ip community-list standard COMM-CLIENT permit '' @ str_nat my_asn @ '':100'',
      ''!''] @
     [''ipv6 prefix-list PL-SELF seq 5 deny ::/0''] @
     prefix_list_entries 10 self_sorted @
     [''!''] @
     route_map_lines my_asn"

definition build_bgp ::
    "set_order \<Rightarrow> intent \<Rightarrow> string \<Rightarrow> loopback_table \<Rightarrow> link_ip_table \<Rightarrow> adjacency_index
     \<Rightarrow> error + string list" where
  "build_bgp iter intent rname loopbacks link_ips adj =
     (case bgp intent of
        None \<Rightarrow> Inr []
      | Some b \<Rightarrow>
          if required b \<noteq> Some True then Inr []
          else
            and_then (lookup (map_of (routers intent)) rname) (\<lambda>me.
            let my_asn = router_as me; rid = router_id me in
            and_then (ibgp_peers_of intent b my_asn rname loopbacks) (\<lambda>ibgp_peers.
            and_then (ebgp_peers_loop intent link_ips rname (adj_get adj rname) []) (\<lambda>ebgp_peers.
            and_then (has_ebgp_neighbor intent rname) (\<lambda>border.
            and_then (lookup loopbacks rname) (\<lambda>my_lb.
            and_then (sequence (map (\<lambda>l. require (subnet_v6 l))
                        (filter (\<lambda>l. link_type l = Some ''inter_as'') (adj_get adj rname))))
              (\<lambda>inter_nets.
            and_then (if border
                      then and_then (loopbacks_for_as intent loopbacks my_asn)
                             (\<lambda>lbs. Inr (sort (iter (intra_as_prefixes_for_as intent my_asn)) @
                                          sort lbs))
                      else Inr [])
              (\<lambda>border_nets.
            let lines = bgp_session_lines my_asn rid border ibgp_peers ebgp_peers @
                        map network_line ([my_lb] @ inter_nets @ border_nets)
            in if border then
                 and_then (loopbacks_for_as intent loopbacks my_asn) (\<lambda>lbs.
                 let self_pfx = fold insert (iter (intra_as_prefixes_for_as intent my_asn))
                                  (fold insert lbs {})
                 in and_then (get_interas_relationship_for_router intent rname adj) (\<lambda>relmap.
                    Inr (lines @ policy_object_lines my_asn (sort (iter self_pfx)) @
                         concat (map (attach_route_maps relmap) ebgp_peers) @
                         ['' exit-address-family'', ''exit'', ''!''])))
               else Inr (lines @ ['' exit-address-family'', ''exit'', ''!''])))))))))"

subsection \<open>The configuration of a router\<close>

text \<open>The link that \<^verbatim>\<open>build_router_config\<close> passes for the loopback: \<^verbatim>\<open>{"type": "intra_as"}\<close>.\<close>

definition loopback_link :: link where
  "loopback_link = \<lparr>name = None, link_type = Some ''intra_as'', subnet_v6 = None,
     endpoints = [], relationship = None, link_as = None, ospf_cost = None\<rparr>"

text \<open>The block of one physical interface: one iteration of the loop over the adjacency.\<close>

definition interface_block :: "asdata \<Rightarrow> link_ip_table \<Rightarrow> string \<Rightarrow> link \<Rightarrow> error + string list" where
  "interface_block asd link_ips rname l =
     and_then (get_endpoint_for_router l rname) (\<lambda>my_ep.
     let iface = interface my_ep in
     and_then (lookup link_ips (rname, iface)) (\<lambda>ip.
     and_then (if link_type l = Some ''intra_as'' then igp_iface_lines asd l else Inr []) (\<lambda>igp_lines.
     Inr ([''interface '' @ iface, '' no ip address'', '' ipv6 enable'', '' ipv6 address '' @ ip] @
          igp_lines @ ['' no shutdown'', ''exit'', ''!'']))))"

definition router_config_lines ::
    "set_order \<Rightarrow> intent \<Rightarrow> string \<Rightarrow> loopback_table \<Rightarrow> link_ip_table \<Rightarrow> adjacency_index
     \<Rightarrow> error + string list" where
  "router_config_lines iter intent rname loopbacks link_ips adj =
     and_then (lookup (map_of (routers intent)) rname) (\<lambda>me.
     and_then (lookup (map_of (ases intent)) (router_as me)) (\<lambda>asd.
     and_then (lookup loopbacks rname) (\<lambda>lb.
     and_then (igp_iface_lines asd loopback_link) (\<lambda>lo_igp.
     and_then (sequence (map (interface_block asd link_ips rname) (adj_get adj rname))) (\<lambda>blocks.
     and_then (igp_global asd (router_id me)) (\<lambda>igp_lines.
     and_then (build_bgp iter intent rname loopbacks link_ips adj) (\<lambda>bgp_lines.
     Inr ([''!'', ''hostname '' @ rname, ''!'', ''no ip domain-lookup'', ''ipv6 unicast-routing'', ''!''] @
          [''interface Loopback0'', '' no ip address'', '' ipv6 address '' @ lb] @
          lo_igp @ ['' no shutdown'', ''exit'', ''!''] @
          concat blocks @ igp_lines @ bgp_lines @ [''!'']))))))))"

definition newline :: string where
  "newline = [CHR 0x0A]"

definition build_router_config ::
    "set_order \<Rightarrow> intent \<Rightarrow> string \<Rightarrow> loopback_table \<Rightarrow> link_ip_table \<Rightarrow> adjacency_index
     \<Rightarrow> error + string" where
  "build_router_config iter intent rname loopbacks link_ips adj =
     and_then (router_config_lines iter intent rname loopbacks link_ips adj)
       (\<lambda>lines. Inr (join newline lines @ newline))"

subsection \<open>The run\<close>

text \<open>
  A run returns the files it has written, in the order of writing, as pairs of file name
  and content, and the error that ended it, if any. The loop of \<^verbatim>\<open>main\<close> builds the
  configuration of a router and writes it before it turns to the next router.
\<close>

fun write_configs ::
    "set_order \<Rightarrow> intent \<Rightarrow> loopback_table \<Rightarrow> link_ip_table \<Rightarrow> adjacency_index \<Rightarrow> string list
     \<Rightarrow> (string \<times> string) list \<Rightarrow> (string \<times> string) list \<times> error option" where
  "write_configs iter intent loopbacks link_ips adj [] files = (files, None)"
| "write_configs iter intent loopbacks link_ips adj (rname # rest) files =
     (case build_router_config iter intent rname loopbacks link_ips adj of
        Inl e \<Rightarrow> (files, Some e)
      | Inr cfg \<Rightarrow> write_configs iter intent loopbacks link_ips adj rest
                     (files @ [(rname @ ''.cfg'', cfg)]))"

definition main :: "set_order \<Rightarrow> intent \<Rightarrow> (string \<times> string) list \<times> error option" where
  "main iter intent =
     (case allocate_loopbacks intent of
        Inl e \<Rightarrow> ([], Some e)
      | Inr loopbacks \<Rightarrow>
          (case allocate_link_ips intent of
             Inl e \<Rightarrow> ([], Some e)
           | Inr link_ips \<Rightarrow>
               write_configs iter intent loopbacks link_ips (adjacency intent)
                 (map fst (routers intent)) []))"


subsection \<open>What is read off a configuration\<close>

text \<open>The lines of a configuration that begin with a given keyword.\<close>

definition lines_with :: "string \<Rightarrow> string list \<Rightarrow> string list" where
  "lines_with keyword lines = filter (prefix keyword) lines"

definition network_statements :: "string list \<Rightarrow> string list" where
  "network_statements lines = lines_with ''  network '' lines"

definition prefix_list_lines :: "string list \<Rightarrow> string list" where
  "prefix_list_lines lines = lines_with ''ipv6 prefix-list PL-SELF '' lines"

text \<open>
  The lines that attach a route-map to a neighbor: neighbor lines that end in a
  direction.
\<close>

definition route_map_attachments :: "string list \<Rightarrow> string list" where
  "route_map_attachments lines =
     filter (\<lambda>l. prefix ''  neighbor '' l \<and> (suffix '' out'' l \<or> suffix '' in'' l)) lines"

text \<open>
  What a run allocates to a router or to an interface, and the lines of the configuration
  that it builds for a router; nothing when the run fails before.
\<close>

definition loopback_of :: "intent \<Rightarrow> string \<Rightarrow> string option" where
  "loopback_of intent rname =
     (case allocate_loopbacks intent of Inl e \<Rightarrow> None | Inr loopbacks \<Rightarrow> loopbacks rname)"

definition link_ip_of :: "intent \<Rightarrow> string \<times> string \<Rightarrow> string option" where
  "link_ip_of intent k =
     (case allocate_link_ips intent of Inl e \<Rightarrow> None | Inr link_ips \<Rightarrow> link_ips k)"

definition compiled_lines :: "set_order \<Rightarrow> intent \<Rightarrow> string \<Rightarrow> string list" where
  "compiled_lines iter intent rname =
     (case allocate_loopbacks intent of
        Inl e \<Rightarrow> []
      | Inr loopbacks \<Rightarrow>
          (case allocate_link_ips intent of
             Inl e \<Rightarrow> []
           | Inr link_ips \<Rightarrow>
               (case router_config_lines iter intent rname loopbacks link_ips (adjacency intent) of
                  Inl e \<Rightarrow> []
                | Inr lines \<Rightarrow> lines)))"

subsection \<open>Example documents\<close>

definition ospf_area0 :: igp_conf where
  "ospf_area0 = \<lparr>igp_type = ''ospfv3'', process_id = Some ''1'', area = Some ''0'',
     process_name = None\<rparr>"

definition no_igp :: igp_conf where
  "no_igp = \<lparr>igp_type = ''none'', process_id = None, area = None, process_name = None\<rparr>"

definition link_between :: "string \<Rightarrow> string \<Rightarrow> string \<times> string \<Rightarrow> string \<times> string \<Rightarrow> link" where
  "link_between t subnet a b =
     \<lparr>name = None, link_type = Some t, subnet_v6 = Some subnet,
      endpoints = [\<lparr>router = fst a, interface = snd a\<rparr>, \<lparr>router = fst b, interface = snd b\<rparr>],
      relationship = None, link_as = None, ospf_cost = None\<rparr>"

text \<open>
  Two ASes: AS 100 with R1 and R2 on an intra-AS link, AS 200 with R3, and an inter-AS
  link from R2 to its provider R3.
\<close>

definition two_as_intent :: intent where
  "two_as_intent =
     \<lparr>ases = [(100, \<lparr>loopbacks_pool = ''2001:100::/64'', as_routers = Some [''R1'', ''R2''],
                      igp = ospf_area0\<rparr>),
              (200, \<lparr>loopbacks_pool = ''2001:200::/64'', as_routers = Some [''R3''],
                      igp = no_igp\<rparr>)],
      routers = [(''R1'', \<lparr>router_as = 100, router_id = ''1.1.1.1''\<rparr>),
                 (''R2'', \<lparr>router_as = 100, router_id = ''2.2.2.2''\<rparr>),
                 (''R3'', \<lparr>router_as = 200, router_id = ''3.3.3.3''\<rparr>)],
      links = [(link_between ''intra_as'' ''2001:100:1::/64'' (''R1'', ''g1/0'') (''R2'', ''g1/0''))
                 \<lparr>link_as := Some 100\<rparr>,
               (link_between ''inter_as'' ''2001:ffff:1::/64'' (''R2'', ''g2/0'') (''R3'', ''g2/0''))
                 \<lparr>relationship := Some ''provider''\<rparr>],
      bgp = Some \<lparr>required = Some True, ibgp_mode = None\<rparr>\<rparr>"

text \<open>One AS whose second link names the same interface of R2 at both ends.\<close>

definition self_link_intent :: intent where
  "self_link_intent =
     \<lparr>ases = [(100, \<lparr>loopbacks_pool = ''2001:100::/64'', as_routers = Some [''R1'', ''R2''],
                      igp = no_igp\<rparr>)],
      routers = [(''R1'', \<lparr>router_as = 100, router_id = ''1.1.1.1''\<rparr>),
                 (''R2'', \<lparr>router_as = 100, router_id = ''2.2.2.2''\<rparr>)],
      links = [link_between ''intra_as'' ''2001:100:1::/64'' (''R1'', ''g1/0'') (''R2'', ''g1/0''),
               link_between ''intra_as'' ''2001:100:2::/64'' (''R2'', ''g2/0'') (''R2'', ''g2/0'')],
      bgp = None\<rparr>"

text \<open>One AS with one link, both ends of which are the interface g1/0 of R1.\<close>

definition reused_interface_intent :: intent where
  "reused_interface_intent =
     \<lparr>ases = [(100, \<lparr>loopbacks_pool = ''2001:100::/64'', as_routers = Some [''R1''],
                      igp = no_igp\<rparr>)],
      routers = [(''R1'', \<lparr>router_as = 100, router_id = ''1.1.1.1''\<rparr>)],
      links = [link_between ''intra_as'' ''2001:db8:1::/64'' (''R1'', ''g1/0'') (''R1'', ''g1/0'')],
      bgp = None\<rparr>"

text \<open>One AS whose router list names R1 at its first and at its third position.\<close>

definition repeated_router_intent :: intent where
  "repeated_router_intent =
     \<lparr>ases = [(100, \<lparr>loopbacks_pool = ''2001:100::/64'',
                      as_routers = Some [''R1'', ''R2'', ''R1''], igp = no_igp\<rparr>)],
      routers = [(''R1'', \<lparr>router_as = 100, router_id = ''1.1.1.1''\<rparr>),
                 (''R2'', \<lparr>router_as = 100, router_id = ''2.2.2.2''\<rparr>)],
      links = [],
      bgp = None\<rparr>"

text \<open>
  R1 of AS 100 and R2 of AS 200 joined by two inter-AS links: on the first R2 is a client,
  on the second a provider.
\<close>

definition parallel_links_intent :: intent where
  "parallel_links_intent =
     \<lparr>ases = [(100, \<lparr>loopbacks_pool = ''2001:100::/64'', as_routers = Some [''R1''],
                      igp = no_igp\<rparr>),
              (200, \<lparr>loopbacks_pool = ''2001:200::/64'', as_routers = Some [''R2''],
                      igp = no_igp\<rparr>)],
      routers = [(''R1'', \<lparr>router_as = 100, router_id = ''1.1.1.1''\<rparr>),
                 (''R2'', \<lparr>router_as = 200, router_id = ''2.2.2.2''\<rparr>)],
      links = [(link_between ''inter_as'' ''2001:ffff:1::/64'' (''R1'', ''g1/0'') (''R2'', ''g1/0''))
                 \<lparr>relationship := Some ''client''\<rparr>,
               (link_between ''inter_as'' ''2001:ffff:2::/64'' (''R1'', ''g2/0'') (''R2'', ''g2/0''))
                 \<lparr>relationship := Some ''provider''\<rparr>],
      bgp = Some \<lparr>required = Some True, ibgp_mode = None\<rparr>\<rparr>"

text \<open>Two ASes without links; the IGP of the second, AS 200, is not one the script knows.\<close>

definition unknown_igp_intent :: intent where
  "unknown_igp_intent =
     \<lparr>ases = [(100, \<lparr>loopbacks_pool = ''2001:100::/64'', as_routers = Some [''R1''],
                      igp = no_igp\<rparr>),
              (200, \<lparr>loopbacks_pool = ''2001:200::/64'', as_routers = Some [''R2''],
                      igp = no_igp\<lparr>igp_type := ''isis''\<rparr>\<rparr>)],
      routers = [(''R1'', \<lparr>router_as = 100, router_id = ''1.1.1.1''\<rparr>),
                 (''R2'', \<lparr>router_as = 200, router_id = ''2.2.2.2''\<rparr>)],
      links = [],
      bgp = None\<rparr>"

text \<open>The document of the two ASes with the pool of AS 200 given as a /48.\<close>

definition bad_pool_intent :: intent where
  "bad_pool_intent =
     two_as_intent\<lparr>ases :=
       [(100, \<lparr>loopbacks_pool = ''2001:100::/64'', as_routers = Some [''R1'', ''R2''],
               igp = ospf_area0\<rparr>),
        (200, \<lparr>loopbacks_pool = ''2001:200::/48'', as_routers = Some [''R3''],
               igp = no_igp\<rparr>)]\<rparr>"

section \<open>Proofs\<close>

subsection \<open>Failing steps\<close>

lemma and_then_Inr [simp]: "and_then (Inr v) f = f v"
  by (simp add: and_then_def)

lemma and_then_Inl [simp]: "and_then (Inl e) f = Inl e"
  by (simp add: and_then_def)

lemma and_then_eq_Inr: "and_then m f = Inr y \<longleftrightarrow> (\<exists>x. m = Inr x \<and> f x = Inr y)"
  by (cases m) simp_all

lemma require_Some [simp]: "require (Some x) = Inr x"
  by (simp add: require_def)

lemma require_None [simp]: "require None = Inl KeyError"
  by (simp add: require_def)

lemma require_eq_Inr: "require v = Inr x \<longleftrightarrow> v = Some x"
  by (cases v) simp_all

lemma lookup_eq_Inr: "lookup d k = Inr x \<longleftrightarrow> d k = Some x"
  by (simp add: lookup_def require_eq_Inr)

lemma sequence_map_Inr_id: "sequence (map Inr ys) = Inr ys"
  by (induction ys) simp_all

lemma sequence_Inr_D: "sequence xs = Inr ys \<Longrightarrow> xs = map Inr ys"
  by (induction xs arbitrary: ys rule: sequence.induct) (auto split: sum.splits)

lemma sequence_eq_Inr: "sequence xs = Inr ys \<longleftrightarrow> xs = map Inr ys"
  using sequence_map_Inr_id sequence_Inr_D by blast

lemma sequence_map_Inr:
  assumes "sequence (map f xs) = Inr ys"
  shows "length ys = length xs \<and> (\<forall>i < length xs. f (xs ! i) = Inr (ys ! i))"
proof -
  from assms have eq: "map f xs = map Inr ys" by (simp add: sequence_eq_Inr)
  then have len: "length ys = length xs" by (metis length_map)
  have "f (xs ! i) = Inr (ys ! i)" if "i < length xs" for i
    using eq that by (metis length_map nth_map)
  with len show ?thesis by blast
qed

subsection \<open>Parsed addresses fit 128 bits\<close>

lemma int_of_digits_snoc:
  "int_of_digits b (s @ [c]) = b * int_of_digits b s + hex_digit_value c"
  by (simp add: int_of_digits_def)

lemma hex_digit_value_bound:
  assumes "is_hex_digit c"
  shows "hex_digit_value c < 16"
proof (cases "is_digit c")
  case True
  define n :: nat where "n = of_char c"
  from True have "48 \<le> n \<and> n \<le> 57" by (simp add: is_digit_def n_def)
  then have "n - 48 < 16" by arith
  with True show ?thesis by (simp add: hex_digit_value_def n_def)
next
  case False
  with assms have "c \<in> set ''abcdefABCDEF''" by (simp only: is_hex_digit_def simp_thms)
  then have "c = CHR ''a'' \<or> c = CHR ''b'' \<or> c = CHR ''c'' \<or> c = CHR ''d'' \<or> c = CHR ''e'' \<or> c = CHR ''f'' \<or>
             c = CHR ''A'' \<or> c = CHR ''B'' \<or> c = CHR ''C'' \<or> c = CHR ''D'' \<or> c = CHR ''E'' \<or> c = CHR ''F''"
    by simp
  then show ?thesis
    by (elim disjE) (simp_all add: hex_digit_value_def is_digit_def)
qed

lemma int_of_digits_hex_bound:
  "list_all is_hex_digit s \<Longrightarrow> int_of_digits 16 s < 16 ^ length s"
proof (induction s rule: rev_induct)
  case Nil
  show ?case by (simp add: int_of_digits_def)
next
  case (snoc c s)
  then have a: "int_of_digits 16 s < 16 ^ length s" and v: "hex_digit_value c < 16"
    by (simp_all add: hex_digit_value_bound)
  from a have "16 * int_of_digits 16 s + 16 \<le> 16 * 16 ^ length s" by simp
  with v show ?case by (simp add: int_of_digits_snoc)
qed

lemma parse_hextet_bound:
  assumes "parse_hextet s = Inr v"
  shows "v < 65536"
proof -
  from assms have h: "list_all is_hex_digit s" and l: "length s \<le> 4" and v: "v = int_of_digits 16 s"
    by (auto simp: parse_hextet_def split: if_splits)
  have "int_of_digits 16 s < 16 ^ length s" using h by (rule int_of_digits_hex_bound)
  also have "(16::nat) ^ length s \<le> 16 ^ 4" using l by (intro power_increasing) simp_all
  finally show ?thesis using v by simp
qed

lemma shift_hextets_bound:
  "\<forall>h \<in> set hs. h < 65536 \<Longrightarrow> a < 2 ^ (16 * k) \<Longrightarrow>
   shift_hextets a hs < 2 ^ (16 * (k + length hs))"
proof (induction hs arbitrary: a k)
  case Nil
  then show ?case by (simp add: shift_hextets_def)
next
  case (Cons h hs)
  from Cons.prems have h: "h < 65536" by simp
  from Cons.prems have "a + 1 \<le> 2 ^ (16 * k)" by simp
  then have "(a + 1) * 65536 \<le> 2 ^ (16 * k) * 65536" by (rule mult_le_mono1)
  also have "(2::nat) ^ (16 * k) * 65536 = 2 ^ (16 * (k + 1))" by (simp add: power_add)
  finally have "a * 65536 + h < 2 ^ (16 * (k + 1))" using h by simp
  with Cons.prems have "shift_hextets (a * 65536 + h) hs < 2 ^ (16 * ((k + 1) + length hs))"
    by (intro Cons.IH) simp_all
  then show ?case by (simp add: shift_hextets_def)
qed

lemma sequence_parse_hextet_bound:
  assumes "sequence (map parse_hextet ps) = Inr hs"
  shows "length hs = length ps \<and> (\<forall>h \<in> set hs. h < 65536)"
proof -
  from sequence_map_Inr [OF assms]
  have len: "length hs = length ps" and nth: "\<forall>i < length ps. parse_hextet (ps ! i) = Inr (hs ! i)"
    by blast+
  have "h < 65536" if "h \<in> set hs" for h
  proof -
    from that obtain i where "i < length hs" "hs ! i = h" by (auto simp: in_set_conv_nth)
    with nth len have "parse_hextet (ps ! i) = Inr h" by auto
    then show ?thesis by (rule parse_hextet_bound)
  qed
  with len show ?thesis by blast
qed

lemma parse_parts_bound:
  assumes "parse_parts parts hi skipped lo = Inr v" and "hi + skipped + lo \<le> 8"
  shows "v < 2 ^ 128"
proof -
  from assms(1) obtain his los where
    a: "sequence (map parse_hextet (take hi parts)) = Inr his" and
    b: "sequence (map parse_hextet (drop (length parts - lo) parts)) = Inr los" and
    v: "v = shift_hextets (shift_hextets 0 his * 2 ^ (16 * skipped)) los"
    by (auto simp: parse_parts_def and_then_eq_Inr)
  from sequence_parse_hextet_bound [OF a]
  have ha: "length his \<le> hi" "\<forall>h \<in> set his. h < 65536" by simp_all
  from sequence_parse_hextet_bound [OF b]
  have hb: "length los \<le> lo" "\<forall>h \<in> set los. h < 65536" by simp_all
  have "shift_hextets 0 his < 2 ^ (16 * (0 + length his))"
    using ha by (intro shift_hextets_bound) simp_all
  also have "(2::nat) ^ (16 * (0 + length his)) \<le> 2 ^ (16 * hi)"
    using ha by (intro power_increasing) simp_all
  finally have "shift_hextets 0 his * 2 ^ (16 * skipped) < 2 ^ (16 * hi) * 2 ^ (16 * skipped)"
    by simp
  also have "(2::nat) ^ (16 * hi) * 2 ^ (16 * skipped) = 2 ^ (16 * (hi + skipped))"
    by (simp add: power_add distrib_left)
  finally have "shift_hextets (shift_hextets 0 his * 2 ^ (16 * skipped)) los
      < 2 ^ (16 * ((hi + skipped) + length los))"
    using hb by (intro shift_hextets_bound) simp_all
  also have "(2::nat) ^ (16 * ((hi + skipped) + length los)) \<le> 2 ^ 128"
    using hb assms(2) by (intro power_increasing) simp_all
  finally show ?thesis using v by simp
qed

lemma parse_with_skip_bound:
  assumes "parse_with_skip parts k = Inr v"
  shows "v < 2 ^ 128"
proof -
  define hi where "hi = (if hd parts = [] then k - 1 else k)"
  define lo where "lo = (if last parts = [] then length parts - k - 1 - 1 else length parts - k - 1)"
  from assms have le: "\<not> 8 < hi + lo + 1" and p: "parse_parts parts hi (8 - (hi + lo)) lo = Inr v"
    by (simp_all add: parse_with_skip_def Let_def hi_def lo_def split: if_splits)
  from le have "hi + (8 - (hi + lo)) + lo \<le> 8" by simp
  with p show ?thesis by (rule parse_parts_bound)
qed

lemma parse_without_skip_bound:
  assumes "parse_without_skip parts = Inr v"
  shows "v < 2 ^ 128"
proof -
  from assms have "length parts = 8" and "parse_parts parts (length parts) 0 0 = Inr v"
    by (simp_all add: parse_without_skip_def split: if_splits)
  then show ?thesis using parse_parts_bound [of parts 8 0 0 v] by simp
qed

lemma ip_int_from_string_bound:
  assumes "ip_int_from_string s = Inr v"
  shows "v < 2 ^ 128"
proof -
  from assms obtain parts where
    "(\<exists>k. parse_with_skip parts k = Inr v) \<or> parse_without_skip parts = Inr v"
    by (auto simp: ip_int_from_string_def Let_def and_then_eq_Inr split: if_splits)
  then show ?thesis using parse_with_skip_bound parse_without_skip_bound by blast
qed

lemma IPv6Address_bound:
  assumes "IPv6Address s = Inr v"
  shows "v < 2 ^ 128"
proof -
  from assms have "ip_int_from_string (takeWhile (\<lambda>c. c \<noteq> CHR ''%'') s) = Inr v"
    by (simp add: IPv6Address_def Let_def split: if_splits)
  then show ?thesis by (rule ip_int_from_string_bound)
qed

lemma IPv6Network_bounds:
  assumes "IPv6Network s = Inr net"
  shows "network_address net < 2 ^ 128 \<and> network_address net mod 2 ^ (128 - prefixlen net) = 0"
proof -
  from assms obtain packed plen where
    a: "IPv6Address (hd (split CHR ''/'' s)) = Inr packed" and
    m: "packed mod 2 ^ (128 - plen) = 0" and
    n: "net = \<lparr>network_address = packed, prefixlen = plen\<rparr>"
    by (auto simp: IPv6Network_def Let_def and_then_eq_Inr split: if_splits)
  from a have "packed < 2 ^ 128" by (rule IPv6Address_bound)
  with m n show ?thesis by simp
qed

lemma IPv6Network_nonempty: "IPv6Network s = Inr net \<Longrightarrow> s \<noteq> []"
  by (auto simp: IPv6Network_def IPv6Address_def ip_int_from_string_def)

text \<open>Below a /64 network address there is room for every host number under \<open>2 ^ 64\<close>.\<close>

lemma add_IPv6Address_slash64:
  assumes "IPv6Network s = Inr net" and "prefixlen net = 64" and "n < 2 ^ 64"
  shows "add_IPv6Address (network_address net) n = Inr (network_address net + n)"
proof -
  from IPv6Network_bounds [OF assms(1)] assms(2)
  have lt: "network_address net < 2 ^ 128" and md: "network_address net mod 2 ^ 64 = 0"
    by simp_all
  from md have "2 ^ 64 dvd network_address net" by (simp add: mod_eq_0_iff_dvd)
  then obtain q where q: "network_address net = q * 2 ^ 64"
    by (auto simp: dvd_def mult.commute)
  have "q < 2 ^ 64"
  proof (rule ccontr)
    assume "\<not> q < 2 ^ 64"
    then have "(2::nat) ^ 64 * 2 ^ 64 \<le> q * 2 ^ 64" by (intro mult_le_mono1) simp
    with lt q show False by simp
  qed
  then have "(q + 1) * 2 ^ 64 \<le> (2::nat) ^ 64 * 2 ^ 64" by (intro mult_le_mono1) simp
  with q assms(3) have "network_address net + n < 2 ^ 128" by simp
  then show ?thesis by (simp add: add_IPv6Address_def)
qed

subsection \<open>Allocation of link addresses\<close>

lemma allocate_link_InrD:
  assumes "allocate_link l out = Inr out'"
  shows "\<exists>s net e0 e1.
           subnet_v6 l = Some s \<and> IPv6Network s = Inr net \<and> prefixlen net = 64 \<and>
           endpoints l = [e0, e1] \<and>
           out (router e0, interface e0) = None \<and> out (router e1, interface e1) = None \<and>
           out' = out((router e0, interface e0) \<mapsto> str_IPv6Address (network_address net + 1) @ ''/64'',
                      (router e1, interface e1) \<mapsto> str_IPv6Address (network_address net + 2) @ ''/64'')"
proof -
  from assms obtain s where s: "subnet_v6 l = Some s" "s \<noteq> []"
    by (auto simp: allocate_link_def split: option.splits if_splits)
  with assms obtain net where net: "IPv6Network s = Inr net"
    by (auto simp: allocate_link_def and_then_eq_Inr)
  from assms s net have plen: "prefixlen net = 64"
    by (auto simp: allocate_link_def split: if_splits)
  from assms s net plen have len: "length (endpoints l) = 2"
    by (auto simp: allocate_link_def Let_def split: if_splits)
  then obtain e0 e1 where eps: "endpoints l = [e0, e1]"
    by (cases "endpoints l"; cases "tl (endpoints l)") auto
  have a1: "add_IPv6Address (network_address net) 1 = Inr (network_address net + 1)"
    and a2: "add_IPv6Address (network_address net) 2 = Inr (network_address net + 2)"
    using net plen by (simp_all add: add_IPv6Address_slash64)
  from assms s net plen eps a1 a2 show ?thesis
    by (auto simp: allocate_link_def Let_def split: if_splits)
qed

lemma allocate_link_ok:
  assumes "subnet_v6 l = Some s" and "IPv6Network s = Inr net" and "prefixlen net = 64"
    and "endpoints l = [e0, e1]"
    and "out (router e0, interface e0) = None" and "out (router e1, interface e1) = None"
  shows "allocate_link l out =
           Inr (out((router e0, interface e0) \<mapsto> str_IPv6Address (network_address net + 1) @ ''/64'',
                    (router e1, interface e1) \<mapsto> str_IPv6Address (network_address net + 2) @ ''/64''))"
proof -
  have a1: "add_IPv6Address (network_address net) 1 = Inr (network_address net + 1)"
    and a2: "add_IPv6Address (network_address net) 2 = Inr (network_address net + 2)"
    using assms(2,3) by (simp_all add: add_IPv6Address_slash64)
  from assms(2) have "s \<noteq> []" by (rule IPv6Network_nonempty)
  with assms a1 a2 show ?thesis by (simp add: allocate_link_def Let_def)
qed

lemma allocate_link_keeps:
  assumes "allocate_link l out = Inr out'"
  shows "out k = Some v \<Longrightarrow> out' k = Some v"
    and "k \<notin> endpoint_keys l \<Longrightarrow> out' k = out k"
proof -
  from allocate_link_InrD [OF assms] obtain e0 e1 a1 a2 where
    eps: "endpoints l = [e0, e1]" and
    n0: "out (router e0, interface e0) = None" and n1: "out (router e1, interface e1) = None" and
    out': "out' = out((router e0, interface e0) \<mapsto> a1, (router e1, interface e1) \<mapsto> a2)"
    by blast
  show "out' k = Some v" if "out k = Some v"
    using that n0 n1 out' by auto
  show "out' k = out k" if "k \<notin> endpoint_keys l"
    using that eps out' by (auto simp: endpoint_keys_def)
qed

lemma allocate_link_ips_loop_keeps:
  assumes "allocate_link_ips_loop ls out = Inr out'"
  shows "out k = Some v \<Longrightarrow> out' k = Some v"
    and "k \<notin> (\<Union>l \<in> set ls. endpoint_keys l) \<Longrightarrow> out' k = out k"
  using assms
proof (induction ls arbitrary: out)
  case Nil
  {
    case 1 then show ?case by simp
  next
    case 2 then show ?case by simp
  }
next
  case (Cons l ls)
  {
    case 1
    from 1(2) obtain out1 where s: "allocate_link l out = Inr out1"
      and r: "allocate_link_ips_loop ls out1 = Inr out'"
      by (auto simp: and_then_eq_Inr)
    from allocate_link_keeps(1) [OF s 1(1)] have "out1 k = Some v" .
    then show ?case using r by (rule Cons.IH(1))
  next
    case 2
    from 2(2) obtain out1 where s: "allocate_link l out = Inr out1"
      and r: "allocate_link_ips_loop ls out1 = Inr out'"
      by (auto simp: and_then_eq_Inr)
    from 2(1) have "k \<notin> endpoint_keys l" "k \<notin> (\<Union>l \<in> set ls. endpoint_keys l)" by simp_all
    with allocate_link_keeps(2) [OF s] Cons.IH(2) [OF _ r] show ?case by simp
  }
qed

text \<open>What a run that returns a table has checked, and what the table holds, for each link.\<close>

lemma allocate_link_ips_loop_link:
  assumes "allocate_link_ips_loop ls out = Inr out'" and "l \<in> set ls"
  shows "\<exists>s net e0 e1.
           subnet_v6 l = Some s \<and> IPv6Network s = Inr net \<and> prefixlen net = 64 \<and>
           endpoints l = [e0, e1] \<and>
           out (router e0, interface e0) = None \<and> out (router e1, interface e1) = None \<and>
           out' (router e1, interface e1) = Some (str_IPv6Address (network_address net + 2) @ ''/64'') \<and>
           ((router e0, interface e0) \<noteq> (router e1, interface e1) \<longrightarrow>
            out' (router e0, interface e0) = Some (str_IPv6Address (network_address net + 1) @ ''/64''))"
  using assms
proof (induction ls arbitrary: out)
  case Nil
  then show ?case by simp
next
  case (Cons x ls)
  from Cons.prems(1) obtain out1 where s: "allocate_link x out = Inr out1"
    and r: "allocate_link_ips_loop ls out1 = Inr out'"
    by (auto simp: and_then_eq_Inr)
  show ?case
  proof (cases "l = x")
    case True
    from allocate_link_InrD [OF s] obtain sn net e0 e1 where
      f: "subnet_v6 x = Some sn" "IPv6Network sn = Inr net" "prefixlen net = 64"
         "endpoints x = [e0, e1]"
         "out (router e0, interface e0) = None" "out (router e1, interface e1) = None" and
      out1: "out1 = out((router e0, interface e0) \<mapsto> str_IPv6Address (network_address net + 1) @ ''/64'',
                        (router e1, interface e1) \<mapsto> str_IPv6Address (network_address net + 2) @ ''/64'')"
      by blast
    from out1 have "out1 (router e1, interface e1) = Some (str_IPv6Address (network_address net + 2) @ ''/64'')"
      by simp
    then have v1: "out' (router e1, interface e1) = Some (str_IPv6Address (network_address net + 2) @ ''/64'')"
      by (rule allocate_link_ips_loop_keeps(1) [OF r])
    have v0: "out' (router e0, interface e0) = Some (str_IPv6Address (network_address net + 1) @ ''/64'')"
      if "(router e0, interface e0) \<noteq> (router e1, interface e1)"
    proof -
      from out1 that have "out1 (router e0, interface e0) = Some (str_IPv6Address (network_address net + 1) @ ''/64'')"
        by auto
      then show ?thesis by (rule allocate_link_ips_loop_keeps(1) [OF r])
    qed
    from True f v1 v0 show ?thesis by blast
  next
    case False
    with Cons.prems(2) have "l \<in> set ls" by simp
    from Cons.IH [OF r this] obtain sn net e0 e1 where
      f: "subnet_v6 l = Some sn" "IPv6Network sn = Inr net" "prefixlen net = 64"
         "endpoints l = [e0, e1]"
         "out1 (router e0, interface e0) = None" "out1 (router e1, interface e1) = None"
         "out' (router e1, interface e1) = Some (str_IPv6Address (network_address net + 2) @ ''/64'')"
         "(router e0, interface e0) \<noteq> (router e1, interface e1) \<longrightarrow>
            out' (router e0, interface e0) = Some (str_IPv6Address (network_address net + 1) @ ''/64'')"
      by blast
    have "out k = None" if "out1 k = None" for k
      using allocate_link_keeps(1) [OF s, of k] that by (cases "out k") auto
    with f show ?thesis by blast
  qed
qed

lemma allocate_link_ips_loop_append:
  "allocate_link_ips_loop (xs @ ys) out =
     and_then (allocate_link_ips_loop xs out) (allocate_link_ips_loop ys)"
  by (induction xs arbitrary: out) (auto simp: and_then_def split: sum.splits)

text \<open>
  C10: a link whose two endpoints are the same (router, interface) pair, a pair that no
  other link claims, passes both duplicate checks: its step of the allocation returns a
  table, in which the pair has the address of endpoint 1, subnet base + 2, and that is the
  address of the pair in the table of the whole run.
\<close>

theorem same_endpoint_link_overwrites:
  assumes "links intent = pre @ l # post"
    and "allocate_link_ips_loop pre Map.empty = Inr out"
    and "subnet_v6 l = Some s" and "IPv6Network s = Inr net" and "prefixlen net = 64"
    and "endpoints l = [e0, e1]" and "router e1 = router e0" and "interface e1 = interface e0"
    and "\<forall>l' \<in> set pre \<union> set post. (router e0, interface e0) \<notin> endpoint_keys l'"
  shows "allocate_link l out =
           Inr (out((router e0, interface e0) \<mapsto> str_IPv6Address (network_address net + 2) @ ''/64'')) \<and>
         (\<forall>table. allocate_link_ips intent = Inr table \<longrightarrow>
            table (router e0, interface e0) = Some (str_IPv6Address (network_address net + 2) @ ''/64''))"
proof -
  let ?k = "(router e0, interface e0)"
  let ?a = "str_IPv6Address (network_address net + 2) @ ''/64''"
  from assms(9) have "?k \<notin> (\<Union>l' \<in> set pre. endpoint_keys l')" by simp
  from allocate_link_ips_loop_keeps(2) [OF assms(2) this] have free: "out ?k = None" by simp
  with assms have step: "allocate_link l out = Inr (out(?k \<mapsto> ?a))"
    by (simp add: allocate_link_ok [where s = s and net = net and ?e0.0 = e0 and ?e1.0 = e1])
  have "table ?k = Some ?a" if t: "allocate_link_ips intent = Inr table" for table
  proof -
    from t assms(1,2) step have "allocate_link_ips_loop post (out(?k \<mapsto> ?a)) = Inr table"
      by (simp add: allocate_link_ips_def allocate_link_ips_loop_append)
    moreover from assms(9) have "?k \<notin> (\<Union>l' \<in> set post. endpoint_keys l')" by simp
    ultimately have "table ?k = (out(?k \<mapsto> ?a)) ?k" by (rule allocate_link_ips_loop_keeps(2))
    then show ?thesis by simp
  qed
  with step show ?thesis by blast
qed

subsection \<open>Running the model on concrete documents\<close>

lemma and_then_weak_cong: "m = m' \<Longrightarrow> and_then m f = and_then m' f"
  by simp

lemmas ip_eval = IPv6Network_def IPv6Address_def ip_int_from_string_def convert_ipv4_suffix_def
  parse_with_skip_def parse_without_skip_def parse_parts_def parse_hextet_def shift_hextets_def
  prefix_from_prefix_string_def int_of_digits_def is_hex_digit_def is_digit_def hex_digit_value_def
  str_IPv6Address_def hextets_of_def compress_hextets_def hex_nat.simps digit_char_def
  add_IPv6Address_def Let_def upt_conv_Cons

lemma IPv6Network_2001_100_1: "IPv6Network ''2001:100:1::/64'' =
    Inr \<lparr>network_address = 42540508444386655338040395001726238720, prefixlen = 64\<rparr>"
  by (simp add: ip_eval cong: and_then_weak_cong)

lemma IPv6Network_2001_100_2: "IPv6Network ''2001:100:2::/64'' =
    Inr \<lparr>network_address = 42540508444387864263860009630900944896, prefixlen = 64\<rparr>"
  by (simp add: ip_eval cong: and_then_weak_cong)

lemma str_2001_100_1_1: "str_IPv6Address 42540508444386655338040395001726238721 = ''2001:100:1::1''"
  by (simp add: ip_eval)

lemma str_2001_100_1_2: "str_IPv6Address 42540508444386655338040395001726238722 = ''2001:100:1::2''"
  by (simp add: ip_eval)

lemma str_2001_100_2_2: "str_IPv6Address 42540508444387864263860009630900944898 = ''2001:100:2::2''"
  by (simp add: ip_eval)

theorem same_endpoint_link_overwrites_witness:
  "allocate_link (links self_link_intent ! 1)
     (Map.empty((''R1'', ''g1/0'') \<mapsto> ''2001:100:1::1/64'', (''R2'', ''g1/0'') \<mapsto> ''2001:100:1::2/64'')) =
     Inr (Map.empty((''R1'', ''g1/0'') \<mapsto> ''2001:100:1::1/64'',
                    (''R2'', ''g1/0'') \<mapsto> ''2001:100:1::2/64'',
                    (''R2'', ''g2/0'') \<mapsto> ''2001:100:2::2/64'')) \<and>
   link_ip_of self_link_intent (''R2'', ''g2/0'') = Some ''2001:100:2::2/64''"
proof -
  let ?l1 = "link_between ''intra_as'' ''2001:100:1::/64'' (''R1'', ''g1/0'') (''R2'', ''g1/0'')"
  let ?l2 = "link_between ''intra_as'' ''2001:100:2::/64'' (''R2'', ''g2/0'') (''R2'', ''g2/0'')"
  let ?out = "Map.empty((''R1'', ''g1/0'') \<mapsto> ''2001:100:1::1/64'', (''R2'', ''g1/0'') \<mapsto> ''2001:100:1::2/64'')"
  let ?e = "\<lparr>router = ''R2'', interface = ''g2/0''\<rparr>"
  have ls: "links self_link_intent = [?l1] @ ?l2 # []"
    by (simp add: self_link_intent_def)
  have first: "allocate_link ?l1 Map.empty = Inr ?out"
    using allocate_link_ok [where l = ?l1 and out = Map.empty, OF _ IPv6Network_2001_100_1]
    by (simp add: link_between_def str_2001_100_1_1 str_2001_100_1_2)
  then have pre: "allocate_link_ips_loop [?l1] Map.empty = Inr ?out"
    by simp
  have free: "\<forall>l' \<in> set [?l1] \<union> set []. (router ?e, interface ?e) \<notin> endpoint_keys l'"
    by (simp add: endpoint_keys_def link_between_def)
  have "allocate_link ?l2 ?out =
          Inr (?out((router ?e, interface ?e) \<mapsto>
            str_IPv6Address (42540508444387864263860009630900944896 + 2) @ ''/64'')) \<and>
        (\<forall>table. allocate_link_ips self_link_intent = Inr table \<longrightarrow>
           table (router ?e, interface ?e) =
             Some (str_IPv6Address (42540508444387864263860009630900944896 + 2) @ ''/64''))"
    using same_endpoint_link_overwrites [where intent = self_link_intent and pre = "[?l1]"
        and l = ?l2 and post = "[]" and out = ?out and s = "''2001:100:2::/64''"
        and net = "\<lparr>network_address = 42540508444387864263860009630900944896, prefixlen = 64\<rparr>"
        and ?e0.0 = ?e and ?e1.0 = ?e]
      ls pre IPv6Network_2001_100_2 free
    by (simp add: link_between_def)
  then have step: "allocate_link ?l2 ?out = Inr (?out((''R2'', ''g2/0'') \<mapsto> ''2001:100:2::2/64''))"
    and run: "\<forall>table. allocate_link_ips self_link_intent = Inr table \<longrightarrow>
                table (''R2'', ''g2/0'') = Some ''2001:100:2::2/64''"
    by (simp_all add: str_2001_100_2_2)
  have "allocate_link_ips self_link_intent =
      Inr (?out((''R2'', ''g2/0'') \<mapsto> ''2001:100:2::2/64''))"
    by (simp add: allocate_link_ips_def self_link_intent_def first step)
  with run have "link_ip_of self_link_intent (''R2'', ''g2/0'') = Some ''2001:100:2::2/64''"
    by (simp add: link_ip_of_def)
  with step show ?thesis by (simp add: self_link_intent_def)
qed

text \<open>
  C7, at the document whose one link has the interface g1/0 of R1 at both ends: the run
  reports no reused interface, and the interface of endpoint 0 holds subnet base + 2, the
  address of endpoint 1, not subnet base + 1.
\<close>

theorem reused_interface_accepted:
  "link_ip_of reused_interface_intent (''R1'', ''g1/0'') = Some ''2001:db8:1::2/64''"
  by (simp add: link_ip_of_def allocate_link_ips_def reused_interface_intent_def allocate_link_def
      link_between_def ip_eval cong: and_then_weak_cong)

subsection \<open>Allocation of loopbacks\<close>

lemma assign_loopbacks_Inr:
  assumes "assign_loopbacks base idx rs out = Inr out'"
  shows "(\<forall>r. r \<notin> set rs \<longrightarrow> out' r = out r) \<and>
         (\<forall>i < length rs. rs ! i \<notin> set (drop (Suc i) rs) \<longrightarrow>
            out' (rs ! i) = Some (str_IPv6Address (base + (idx + i)) @ ''/128''))"
  using assms
proof (induction rs arbitrary: idx out)
  case Nil
  then show ?case by simp
next
  case (Cons r rs)
  let ?out1 = "out(r \<mapsto> str_IPv6Address (base + idx) @ ''/128'')"
  from Cons.prems have rest: "assign_loopbacks base (idx + 1) rs ?out1 = Inr out'"
    by (auto simp: and_then_eq_Inr add_IPv6Address_def split: if_splits)
  from Cons.IH [OF rest]
  have keep: "\<forall>x. x \<notin> set rs \<longrightarrow> out' x = ?out1 x"
    and pos: "\<forall>i < length rs. rs ! i \<notin> set (drop (Suc i) rs) \<longrightarrow>
                out' (rs ! i) = Some (str_IPv6Address (base + (idx + 1 + i)) @ ''/128'')"
    by blast+
  have "out' ((r # rs) ! i) = Some (str_IPv6Address (base + (idx + i)) @ ''/128'')"
    if "i < length (r # rs)" and "(r # rs) ! i \<notin> set (drop (Suc i) (r # rs))" for i
  proof (cases i)
    case 0
    with that keep show ?thesis by simp
  next
    case (Suc j)
    with that pos show ?thesis by simp
  qed
  moreover from keep have "\<forall>x. x \<notin> set (r # rs) \<longrightarrow> out' x = out x" by simp
  ultimately show ?case by blast
qed

lemma assign_loopbacks_ok:
  "base + idx + length rs \<le> 2 ^ 128 \<Longrightarrow> \<exists>out'. assign_loopbacks base idx rs out = Inr out'"
proof (induction rs arbitrary: idx out)
  case Nil
  then show ?case by simp
next
  case (Cons r rs)
  from Cons.prems have "base + idx < 2 ^ 128" and "base + (idx + 1) + length rs \<le> 2 ^ 128"
    by simp_all
  with Cons.IH [of "idx + 1"] show ?case by (simp add: add_IPv6Address_def)
qed

lemma valid_as_pool:
  assumes "valid_as asd"
  obtains pool where "IPv6Network (loopbacks_pool asd) = Inr pool" and "prefixlen pool = 64"
    and "network_address pool + 1 + length (get_routers asd) \<le> 2 ^ 128"
proof -
  from assms obtain pool where p: "IPv6Network (loopbacks_pool asd) = Inr pool" "prefixlen pool = 64"
    and n: "length (get_routers asd) < 2 ^ 64"
    by (auto simp: valid_as_def split: sum.splits)
  define M :: nat where "M = 2 ^ 128"
  from add_IPv6Address_slash64 [OF p n]
  have "network_address pool + length (get_routers asd) < M"
    by (simp add: add_IPv6Address_def M_def split: if_splits)
  then have "network_address pool + 1 + length (get_routers asd) \<le> M" by simp
  with p show ?thesis unfolding M_def by (intro that)
qed

lemma allocate_loopbacks_loop_append:
  "allocate_loopbacks_loop (xs @ ys) out =
     and_then (allocate_loopbacks_loop xs out) (allocate_loopbacks_loop ys)"
proof (induction xs arbitrary: out)
  case Nil
  show ?case by simp
next
  case (Cons a xs)
  obtain asn asd where a: "a = (asn, asd)" by (cases a)
  show ?case
  proof (cases "IPv6Network (loopbacks_pool asd)")
    case (Inl e)
    with a show ?thesis by simp
  next
    case (Inr pool)
    show ?thesis
    proof (cases "assign_loopbacks (network_address pool) 1 (get_routers asd) out")
      case Inl
      with a Inr show ?thesis by (simp add: Let_def)
    next
      case (Inr out1)
      with a \<open>IPv6Network (loopbacks_pool asd) = Inr pool\<close> Cons.IH [of out1]
      show ?thesis by (simp add: Let_def)
    qed
  qed
qed

lemma allocate_loopbacks_loop_ok:
  "\<forall>a \<in> set xs. valid_as (snd a) \<Longrightarrow> \<exists>out'. allocate_loopbacks_loop xs out = Inr out'"
proof (induction xs arbitrary: out)
  case Nil
  show ?case by simp
next
  case (Cons a xs)
  obtain asn asd where a: "a = (asn, asd)" by (cases a)
  with Cons.prems have v: "valid_as asd" by simp
  then obtain pool where p: "IPv6Network (loopbacks_pool asd) = Inr pool" "prefixlen pool = 64"
    and n: "network_address pool + 1 + length (get_routers asd) \<le> 2 ^ 128"
    by (rule valid_as_pool)
  from assign_loopbacks_ok [OF n] obtain out1 where
    o: "assign_loopbacks (network_address pool) 1 (get_routers asd) out = Inr out1" by blast
  from v have ne: "get_routers asd \<noteq> []" by (simp add: valid_as_def)
  from Cons.prems Cons.IH [of out1] obtain out' where "allocate_loopbacks_loop xs out1 = Inr out'"
    by auto
  with a p o ne show ?case by (simp add: Let_def)
qed

lemma allocate_loopbacks_loop_keeps:
  assumes "allocate_loopbacks_loop xs out = Inr out'"
    and "r \<notin> (\<Union>a \<in> set xs. set (get_routers (snd a)))"
  shows "out' r = out r"
  using assms
proof (induction xs arbitrary: out)
  case Nil
  then show ?case by simp
next
  case (Cons a xs)
  obtain asn asd where a: "a = (asn, asd)" by (cases a)
  from Cons.prems(1) a obtain pool where p: "IPv6Network (loopbacks_pool asd) = Inr pool"
    by (cases "IPv6Network (loopbacks_pool asd)") auto
  with Cons.prems(1) a
  have "and_then (assign_loopbacks (network_address pool) 1 (get_routers asd) out)
          (allocate_loopbacks_loop xs) = Inr out'"
    by (simp add: Let_def split: if_splits)
  then obtain out1 where
    o: "assign_loopbacks (network_address pool) 1 (get_routers asd) out = Inr out1" and
    r: "allocate_loopbacks_loop xs out1 = Inr out'"
    by (auto simp: and_then_eq_Inr)
  from Cons.prems(2) a have "r \<notin> set (get_routers asd)"
    and "r \<notin> (\<Union>a \<in> set xs. set (get_routers (snd a)))" by simp_all
  with assign_loopbacks_Inr [OF o] Cons.IH [OF r] show ?case by simp
qed

subsection \<open>The text of an address determines the address\<close>

lemma below_16:
  assumes "d < 16"
  shows "d \<in> set [0, 1, 2, 3, 4, 5, 6, 7, 8, 9, 10, 11, 12, 13, 14, 15::nat]"
proof -
  from assms have "d \<in> set [0 ..< 16]" by simp
  also have "[0 ..< 16] = [0, 1, 2, 3, 4, 5, 6, 7, 8, 9, 10, 11, 12, 13, 14, 15::nat]"
    by (simp add: upt_conv_Cons)
  finally show ?thesis .
qed

lemma hex_digit_value_digit_char: "d < 16 \<Longrightarrow> hex_digit_value (digit_char d) = d"
  using below_16 [of d]
  by (auto simp: digit_char_def hex_digit_value_def is_digit_def)

lemma digit_char_not_colon: "d < 16 \<Longrightarrow> digit_char d \<noteq> CHR '':''"
  using below_16 [of d]
  by (auto simp: digit_char_def)

lemma int_of_digits_hex_nat: "int_of_digits 16 (hex_nat n) = n"
proof (induction n rule: hex_nat.induct)
  case (1 n)
  show ?case
  proof (cases "n < 16")
    case True
    then show ?thesis
      by (subst hex_nat.simps) (simp add: int_of_digits_def hex_digit_value_digit_char)
  next
    case False
    with "1.IH" have "int_of_digits 16 (hex_nat (n div 16)) = n div 16" by simp
    with False show ?thesis
      by (subst hex_nat.simps) (simp add: int_of_digits_snoc hex_digit_value_digit_char)
  qed
qed

lemma hex_nat_inj: "hex_nat a = hex_nat b \<Longrightarrow> a = b"
  by (metis int_of_digits_hex_nat)

lemma hex_nat_nonempty: "hex_nat n \<noteq> []"
  by (subst hex_nat.simps) simp

lemma hex_nat_no_colon: "CHR '':'' \<notin> set (hex_nat n)"
proof (induction n rule: hex_nat.induct)
  case (1 n)
  show ?case
  proof (cases "n < 16")
    case True
    then show ?thesis by (subst hex_nat.simps) (simp add: digit_char_not_colon [symmetric])
  next
    case False
    with "1.IH" have "CHR '':'' \<notin> set (hex_nat (n div 16))" by simp
    moreover have "digit_char (n mod 16) \<noteq> CHR '':''" by (rule digit_char_not_colon) simp
    ultimately show ?thesis using False by (subst hex_nat.simps) auto
  qed
qed

lemma hex_nat_zero: "hex_nat n = ''0'' \<longleftrightarrow> n = 0"
proof
  assume "hex_nat n = ''0''"
  moreover have "hex_nat 0 = ''0''" by (subst hex_nat.simps) (simp add: digit_char_def)
  ultimately show "n = 0" using hex_nat_inj by metis
next
  assume "n = 0"
  then show "hex_nat n = ''0''" by (subst hex_nat.simps) (simp add: digit_char_def)
qed

text \<open>The hextets are the digits of the address in base \<open>65536\<close>.\<close>

lemma shift_hextets_Cons: "shift_hextets a hs = a * 65536 ^ length hs + shift_hextets 0 hs"
proof (induction hs arbitrary: a)
  case Nil
  show ?case by (simp add: shift_hextets_def)
next
  case (Cons h hs)
  have "shift_hextets a (h # hs) = shift_hextets (a * 65536 + h) hs"
    by (simp add: shift_hextets_def)
  also have "\<dots> = (a * 65536 + h) * 65536 ^ length hs + shift_hextets 0 hs"
    by (rule Cons.IH)
  also have "shift_hextets 0 (h # hs) = shift_hextets h hs" by (simp add: shift_hextets_def)
  then have "shift_hextets 0 (h # hs) = h * 65536 ^ length hs + shift_hextets 0 hs"
    using Cons.IH [of h] by simp
  then have "(a * 65536 + h) * 65536 ^ length hs + shift_hextets 0 hs
      = a * 65536 ^ length (h # hs) + shift_hextets 0 (h # hs)"
    by (simp add: algebra_simps)
  finally show ?case .
qed

lemma shift_hextets_digits:
  "shift_hextets 0 (rev (map (\<lambda>k. (ip div 65536 ^ k) mod 65536) [0 ..< n])) = ip mod 65536 ^ n"
proof (induction n)
  case 0
  show ?case by (simp add: shift_hextets_def)
next
  case (Suc n)
  let ?ds = "rev (map (\<lambda>k. (ip div 65536 ^ k) mod 65536) [0 ..< n])"
  have "shift_hextets 0 (rev (map (\<lambda>k. (ip div 65536 ^ k) mod 65536) [0 ..< Suc n]))
      = shift_hextets 0 (((ip div 65536 ^ n) mod 65536) # ?ds)" by simp
  also have "\<dots> = shift_hextets ((ip div 65536 ^ n) mod 65536) ?ds"
    by (simp add: shift_hextets_def)
  also have "\<dots> = (ip div 65536 ^ n) mod 65536 * 65536 ^ n + shift_hextets 0 ?ds"
    by (subst shift_hextets_Cons) simp
  also have "\<dots> = (ip div 65536 ^ n) mod 65536 * 65536 ^ n + ip mod 65536 ^ n"
    by (simp only: Suc.IH)
  also have "\<dots> = ip mod 65536 ^ Suc n"
  proof -
    have m: "ip mod (65536 ^ n * 65536) =
        65536 ^ n * (ip div 65536 ^ n mod 65536) + ip mod 65536 ^ n"
      by (rule mod_mult2_eq)
    show ?thesis
      unfolding power_Suc2 m
      by (rule arg_cong2 [where f = "(+)"]) (rule mult.commute, rule refl)
  qed
  finally show ?case .
qed

lemma hextets_of_digits:
  "hextets_of ip = map hex_nat (rev (map (\<lambda>k. (ip div 65536 ^ k) mod 65536) [0 ..< 8]))"
  by (simp add: hextets_of_def upt_conv_Cons)

lemma hextets_of_inj:
  assumes "hextets_of a = hextets_of b" and "a < 2 ^ 128" and "b < 2 ^ 128"
  shows "a = b"
proof -
  let ?d = "\<lambda>ip. rev (map (\<lambda>k. (ip div 65536 ^ k) mod 65536) [0 ..< 8])"
  from assms(1) have "map hex_nat (?d a) = map hex_nat (?d b)"
    by (simp only: hextets_of_digits)
  moreover have "inj hex_nat" by (rule injI) (rule hex_nat_inj)
  ultimately have "?d a = ?d b" by (simp only: inj_map_eq_map)
  then have "shift_hextets 0 (?d a) = shift_hextets 0 (?d b)" by (rule arg_cong)
  then have "a mod 65536 ^ 8 = b mod 65536 ^ 8" by (simp only: shift_hextets_digits)
  moreover have "(65536::nat) ^ 8 = 2 ^ 128" by simp
  ultimately show ?thesis using assms(2,3) by (simp only: mod_less)
qed

lemma hextets_of_props:
  "length (hextets_of ip) = 8 \<and> (\<forall>h \<in> set (hextets_of ip). h \<noteq> [] \<and> CHR '':'' \<notin> set h)"
  by (auto simp: hextets_of_def hex_nat_nonempty hex_nat_no_colon)

lemma split_no_separator: "c \<notin> set x \<Longrightarrow> split c x = [x]"
  by (induction x) auto

lemma split_append_separator: "c \<notin> set x \<Longrightarrow> split c (x @ c # rest) = x # split c rest"
  by (induction x) auto

lemma split_join:
  "cs \<noteq> [] \<Longrightarrow> \<forall>x \<in> set cs. c \<notin> set x \<Longrightarrow> split c (join [c] cs) = cs"
proof (induction "[c]" cs rule: join.induct)
  case 1
  then show ?case by simp
next
  case (2 x)
  then show ?case by (simp add: split_no_separator)
next
  case (3 x y ys)
  then show ?case by (simp add: split_append_separator)
qed

lemma zero_run_extend:
  assumes "zero_run full a l" and "a + l < int (length full)" and "full ! nat (a + l) = ''0''"
  shows "zero_run full a (l + 1)"
proof -
  have "full ! nat j = ''0''" if "a \<le> j" and "j < a + (l + 1)" for j
  proof (cases "j = a + l")
    case True
    with assms(3) show ?thesis by simp
  next
    case False
    with that have "j < a + l" by simp
    with assms(1) that show ?thesis by (simp add: zero_run_def)
  qed
  with assms(1,2) show ?thesis by (simp add: zero_run_def)
qed

lemma scan_zeros_run:
  assumes "scan_zeros hs index (bs, bl, s, l) = (bs', bl', s', l')"
    and "hs = drop (nat index) full"
    and "zero_run full (index - l) l"
    and "(l = 0 \<longrightarrow> s = - 1) \<and> (0 < l \<longrightarrow> s = index - l)"
    and "0 \<le> bl" and "bl = 0 \<or> zero_run full bs bl"
  shows "0 \<le> bl' \<and> (bl' = 0 \<or> zero_run full bs' bl')"
  using assms
proof (induction hs arbitrary: index bs bl s l)
  case Nil
  then show ?case by simp
next
  case (Cons h rest)
  from Cons.prems(3) have idx: "0 \<le> index" "0 \<le> l" "l \<le> index" by (simp_all add: zero_run_def)
  from Cons.prems(2) have d: "drop (nat index) full = h # rest" by simp
  then have lt: "nat index < length full" by (cases "nat index < length full") simp_all
  from d have "hd (drop (nat index) full) = h" by simp
  with lt have h: "full ! nat index = h" by (simp add: hd_drop_conv_nth)
  from d have "tl (drop (nat index) full) = rest" by simp
  then have "drop (Suc (nat index)) full = rest" by (simp add: drop_Suc tl_drop)
  moreover from idx have "nat (index + 1) = Suc (nat index)" by simp
  ultimately have rest: "rest = drop (nat (index + 1)) full" by simp
  show ?case
  proof (cases "h = ''0''")
    case False
    from idx lt have "index + 1 \<le> int (length full)" by linarith
    with idx have z: "zero_run full (index + 1 - 0) 0" by (auto simp: zero_run_def)
    from Cons.prems(1) False have "scan_zeros rest (index + 1) (bs, bl, - 1, 0) = (bs', bl', s', l')"
      by simp
    from Cons.IH [OF this rest z _ Cons.prems(5,6)] show ?thesis by simp
  next
    case True
    let ?s = "if s = - 1 then index else s"
    from Cons.prems(4) idx have s: "?s = index - l" by auto
    from Cons.prems(3) lt idx h True have "zero_run full (index - l) (l + 1)"
      by (intro zero_run_extend) simp_all
    then have z: "zero_run full (index + 1 - (l + 1)) (l + 1)" by simp
    from idx s have st: "(l + 1 = 0 \<longrightarrow> ?s = - 1) \<and> (0 < l + 1 \<longrightarrow> ?s = index + 1 - (l + 1))"
      by simp
    show ?thesis
    proof (cases "l + 1 > bl")
      case True
      with Cons.prems(1) \<open>h = ''0''\<close>
      have "scan_zeros rest (index + 1) (?s, l + 1, ?s, l + 1) = (bs', bl', s', l')"
        by (simp add: Let_def)
      moreover from z s have "l + 1 = 0 \<or> zero_run full ?s (l + 1)" by simp
      moreover from idx have "0 \<le> l + 1" by simp
      ultimately show ?thesis using Cons.IH [OF _ rest z st] by blast
    next
      case False
      with Cons.prems(1) \<open>h = ''0''\<close>
      have "scan_zeros rest (index + 1) (bs, bl, ?s, l + 1) = (bs', bl', s', l')"
        by (simp add: Let_def)
      from Cons.IH [OF this rest z st Cons.prems(5,6)] show ?thesis .
    qed
  qed
qed

lemma zero_run_replicate:
  assumes "zero_run hs bs bl"
  shows "take (nat bs) hs @ replicate (nat bl) ''0'' @ drop (nat bs + nat bl) hs = hs"
proof -
  from assms have b: "nat bs + nat bl \<le> length hs" unfolding zero_run_def by linarith
  have "take (nat bl) (drop (nat bs) hs) = replicate (nat bl) ''0''"
  proof (rule nth_equalityI)
    show "length (take (nat bl) (drop (nat bs) hs)) = length (replicate (nat bl) ''0'')"
      using b by simp
  next
    fix i assume "i < length (take (nat bl) (drop (nat bs) hs))"
    then have i: "i < nat bl" by simp
    with assms have "hs ! nat (bs + int i) = ''0''" by (simp add: zero_run_def)
    moreover from assms have "nat (bs + int i) = nat bs + i" by (simp add: zero_run_def nat_add_distrib)
    ultimately show "take (nat bl) (drop (nat bs) hs) ! i = replicate (nat bl) ''0'' ! i"
      using i b by simp
  qed
  moreover have "take (nat bs) hs @ take (nat bl) (drop (nat bs) hs) @ drop (nat bl) (drop (nat bs) hs) = hs"
    by (simp only: append_take_drop_id)
  moreover have "drop (nat bl) (drop (nat bs) hs) = drop (nat bs + nat bl) hs"
    by (simp add: add.commute)
  ultimately show ?thesis by simp
qed

lemma compress_hextets_shape:
  "compress_hextets hs = hs \<or>
   (\<exists>b n. 2 \<le> n \<and> b + n \<le> length hs \<and> zero_run hs (int b) (int n) \<and>
      compress_hextets hs =
        (if b = 0 then [[]] else []) @ take b hs @ [[]] @ drop (b + n) hs @
        (if b + n = length hs then [[]] else []))"
proof -
  obtain bs bl s l where sc: "scan_zeros hs 0 (- 1, 0, - 1, 0) = (bs, bl, s, l)"
    by (cases "scan_zeros hs 0 (- 1, 0, - 1, 0)") auto
  have "zero_run hs (0 - 0) 0" by (auto simp: zero_run_def)
  from scan_zeros_run [OF sc _ this] have r: "0 \<le> bl" "bl = 0 \<or> zero_run hs bs bl"
    by simp_all
  show ?thesis
  proof (cases "bl > 1")
    case False
    with sc show ?thesis by (simp add: compress_hextets_def)
  next
    case True
    with r have z: "zero_run hs bs bl" by auto
    define b n where "b = nat bs" and "n = nat bl"
    from z True have bn: "bs = int b" "bl = int n" "2 \<le> n" "b + n \<le> length hs"
      unfolding zero_run_def b_def n_def by linarith+
    from bn have t: "take b (hs @ [[]]) = take b hs" and d: "drop (b + n) (hs @ [[]]) = drop (b + n) hs @ [[]]"
      by simp_all
    have e: "nat (int b + int n) = b + n" by simp
    have c: "compress_hextets hs =
        (if b = 0 then [[]] else []) @ take b hs @ [[]] @ drop (b + n) hs @
        (if b + n = length hs then [[]] else [])"
      using sc True bn(1,2) t d e by (simp add: compress_hextets_def Let_def)
    from z bn c show ?thesis by blast
  qed
qed

lemma expand_compress:
  assumes "length hs = 8" and "\<forall>h \<in> set hs. h \<noteq> []"
  shows "expand_hextets (compress_hextets hs) = hs"
proof -
  from compress_hextets_shape [of hs] show ?thesis
  proof (elim disjE exE conjE)
    assume same: "compress_hextets hs = hs"
    from assms(2) have tw: "takeWhile (\<lambda>h. h \<noteq> []) hs = hs" "dropWhile (\<lambda>h. h \<noteq> []) hs = []"
      by simp_all
    show ?thesis by (simp add: expand_hextets_def Let_def same tw assms(1))
  next
    fix b n
    assume n: "2 \<le> n" and bn: "b + n \<le> length hs" and z: "zero_run hs (int b) (int n)"
      and c: "compress_hextets hs =
        (if b = 0 then [[]] else []) @ take b hs @ [[]] @ drop (b + n) hs @
        (if b + n = length hs then [[]] else [])"
    let ?T = "take b hs" and ?D = "drop (b + n) hs"
    let ?Q = "if b + n = length hs then [[]] else [] :: string list"
    from assms(2) have neT: "\<forall>h \<in> set ?T. h \<noteq> []" and neD: "\<forall>h \<in> set ?D. h \<noteq> []"
      by (auto dest: in_set_takeD in_set_dropD)
    from neD have fD: "filter (\<lambda>h. h \<noteq> []) (?D @ ?Q) = ?D" by simp
    have front: "takeWhile (\<lambda>h. h \<noteq> []) (compress_hextets hs) = ?T"
    proof (cases "b = 0")
      case True
      with c show ?thesis by simp
    next
      case False
      with c have "compress_hextets hs = ?T @ [] # (?D @ ?Q)" by simp
      moreover have "takeWhile (\<lambda>h. h \<noteq> []) (?T @ [] # (?D @ ?Q)) = takeWhile (\<lambda>h. h \<noteq> []) ?T"
        by (rule takeWhile_tail) simp
      ultimately show ?thesis using neT by simp
    qed
    have rear: "filter (\<lambda>h. h \<noteq> []) (dropWhile (\<lambda>h. h \<noteq> []) (compress_hextets hs)) = ?D"
    proof (cases "b = 0")
      case True
      with c have "compress_hextets hs = [] # [] # (?D @ ?Q)" by simp
      with fD show ?thesis by simp
    next
      case False
      with c have "compress_hextets hs = ?T @ [] # (?D @ ?Q)" by simp
      moreover from neT have "dropWhile (\<lambda>h. h \<noteq> []) (?T @ [] # (?D @ ?Q)) = [] # (?D @ ?Q)"
        by (simp add: dropWhile_append2)
      ultimately show ?thesis using fD by simp
    qed
    from bn assms(1) have "8 - (length ?T + length ?D) = n" by simp
    with front rear have "expand_hextets (compress_hextets hs) = ?T @ replicate n ''0'' @ ?D"
      by (simp add: expand_hextets_def Let_def)
    also have "\<dots> = hs" using zero_run_replicate [OF z] by simp
    finally show ?thesis .
  qed
qed

lemma compress_hextets_parts:
  assumes "hs \<noteq> []" and "\<forall>h \<in> set hs. c \<notin> set h"
  shows "compress_hextets hs \<noteq> [] \<and> (\<forall>h \<in> set (compress_hextets hs). c \<notin> set h)"
proof -
  from compress_hextets_shape [of hs] show ?thesis
  proof (elim disjE exE conjE)
    assume "compress_hextets hs = hs"
    with assms show ?thesis by simp
  next
    fix b n
    assume c: "compress_hextets hs =
        (if b = 0 then [[]] else []) @ take b hs @ [[]] @ drop (b + n) hs @
        (if b + n = length hs then [[]] else [])"
    from assms(2) have "\<forall>h \<in> set (take b hs). c \<notin> set h" "\<forall>h \<in> set (drop (b + n) hs). c \<notin> set h"
      by (auto dest: in_set_takeD in_set_dropD)
    with c show ?thesis by auto
  qed
qed

text \<open>Two addresses with the same text are the same address.\<close>

lemma str_IPv6Address_inj:
  assumes "str_IPv6Address a = str_IPv6Address b" and "a < 2 ^ 128" and "b < 2 ^ 128"
  shows "a = b"
proof -
  let ?ca = "compress_hextets (hextets_of a)" and ?cb = "compress_hextets (hextets_of b)"
  have pa: "?ca \<noteq> [] \<and> (\<forall>h \<in> set ?ca. CHR '':'' \<notin> set h)"
    using hextets_of_props [of a] by (intro compress_hextets_parts) auto
  have pb: "?cb \<noteq> [] \<and> (\<forall>h \<in> set ?cb. CHR '':'' \<notin> set h)"
    using hextets_of_props [of b] by (intro compress_hextets_parts) auto
  from assms(1) have "split CHR '':'' (join '':'' ?ca) = split CHR '':'' (join '':'' ?cb)"
    by (simp add: str_IPv6Address_def)
  with pa pb have "?ca = ?cb" by (simp add: split_join)
  then have "expand_hextets ?ca = expand_hextets ?cb" by simp
  then have "hextets_of a = hextets_of b"
    using hextets_of_props [of a] hextets_of_props [of b] by (simp add: expand_compress)
  then show ?thesis using assms(2,3) by (rule hextets_of_inj)
qed

lemma allocate_loopbacks_loop_step:
  assumes "IPv6Network (loopbacks_pool asd) = Inr pool"
  shows "allocate_loopbacks_loop ((asn, asd) # rest) out =
     (if prefixlen pool \<noteq> 64 then Inl InvalidPrefixLength
      else if get_routers asd = [] then Inl EmptyRouterSet
      else and_then (assign_loopbacks (network_address pool) 1 (get_routers asd) out)
             (allocate_loopbacks_loop rest))"
  using assms by (simp add: Let_def)

text \<open>
  C6, as amended: the ASes are checked in document order, so let every AS before the one
  in question be valid. If the pool of the AS parses with a prefix length other than 64
  the run fails with InvalidPrefixLength; if the pool is a /64 and the router list is
  empty or missing it fails with EmptyRouterSet. If this AS and the ASes after it are
  valid, the run returns a table; in it the router at position \<open>i\<close> (counted from 0) has
  the address pool base + \<open>i + 1\<close> as a /128, provided that its name is not listed again
  at a later position of the list or in a later AS, and any two such routers of the AS
  have different loopbacks.
\<close>

theorem allocate_loopbacks_positions:
  assumes "ases intent = pre @ (asn, asd) # post"
    and "\<forall>a \<in> set pre. valid_as (snd a)"
  shows "(\<forall>pool. IPv6Network (loopbacks_pool asd) = Inr pool \<and> prefixlen pool \<noteq> 64 \<longrightarrow>
            allocate_loopbacks intent = Inl InvalidPrefixLength) \<and>
         (\<forall>pool. IPv6Network (loopbacks_pool asd) = Inr pool \<and> prefixlen pool = 64 \<and>
                 get_routers asd = [] \<longrightarrow>
            allocate_loopbacks intent = Inl EmptyRouterSet) \<and>
         (valid_as asd \<and> (\<forall>a \<in> set post. valid_as (snd a)) \<longrightarrow>
            (\<exists>out pool.
               allocate_loopbacks intent = Inr out \<and>
               IPv6Network (loopbacks_pool asd) = Inr pool \<and> prefixlen pool = 64 \<and>
               (\<forall>i < length (get_routers asd).
                  get_routers asd ! i \<notin> set (drop (Suc i) (get_routers asd)) \<and>
                  get_routers asd ! i \<notin> (\<Union>a \<in> set post. set (get_routers (snd a))) \<longrightarrow>
                  out (get_routers asd ! i) =
                    Some (str_IPv6Address (network_address pool + (i + 1)) @ ''/128'')) \<and>
               (\<forall>i j. i < j \<and> j < length (get_routers asd) \<and>
                  get_routers asd ! i \<notin> set (drop (Suc i) (get_routers asd)) \<and>
                  get_routers asd ! i \<notin> (\<Union>a \<in> set post. set (get_routers (snd a))) \<and>
                  get_routers asd ! j \<notin> set (drop (Suc j) (get_routers asd)) \<and>
                  get_routers asd ! j \<notin> (\<Union>a \<in> set post. set (get_routers (snd a))) \<longrightarrow>
                  out (get_routers asd ! i) \<noteq> out (get_routers asd ! j))))"
proof -
  let ?rs = "get_routers asd"
  let ?later = "\<Union>a \<in> set post. set (get_routers (snd a))"
  from allocate_loopbacks_loop_ok [OF assms(2)] obtain out0 where
    pre: "allocate_loopbacks_loop pre Map.empty = Inr out0" by blast
  with assms(1) have run: "allocate_loopbacks intent = allocate_loopbacks_loop ((asn, asd) # post) out0"
    by (simp add: allocate_loopbacks_def allocate_loopbacks_loop_append)
  have bad_len: "allocate_loopbacks intent = Inl InvalidPrefixLength"
    if "IPv6Network (loopbacks_pool asd) = Inr pool" and "prefixlen pool \<noteq> 64" for pool
    using that run by (simp add: allocate_loopbacks_loop_step)
  have empty: "allocate_loopbacks intent = Inl EmptyRouterSet"
    if "IPv6Network (loopbacks_pool asd) = Inr pool" and "prefixlen pool = 64" and "?rs = []" for pool
    using that run by (simp add: allocate_loopbacks_loop_step)
  have good: "\<exists>out pool.
      allocate_loopbacks intent = Inr out \<and>
      IPv6Network (loopbacks_pool asd) = Inr pool \<and> prefixlen pool = 64 \<and>
      (\<forall>i < length ?rs. ?rs ! i \<notin> set (drop (Suc i) ?rs) \<and> ?rs ! i \<notin> ?later \<longrightarrow>
         out (?rs ! i) = Some (str_IPv6Address (network_address pool + (i + 1)) @ ''/128'')) \<and>
      (\<forall>i j. i < j \<and> j < length ?rs \<and>
         ?rs ! i \<notin> set (drop (Suc i) ?rs) \<and> ?rs ! i \<notin> ?later \<and>
         ?rs ! j \<notin> set (drop (Suc j) ?rs) \<and> ?rs ! j \<notin> ?later \<longrightarrow>
         out (?rs ! i) \<noteq> out (?rs ! j))"
    if v: "valid_as asd" and vp: "\<forall>a \<in> set post. valid_as (snd a)"
  proof -
    from v obtain pool where p: "IPv6Network (loopbacks_pool asd) = Inr pool" "prefixlen pool = 64"
      and n: "network_address pool + 1 + length ?rs \<le> 2 ^ 128"
      by (rule valid_as_pool)
    from v have ne: "?rs \<noteq> []" by (simp add: valid_as_def)
    from assign_loopbacks_ok [OF n] obtain out1 where
      o: "assign_loopbacks (network_address pool) 1 ?rs out0 = Inr out1" by blast
    from allocate_loopbacks_loop_ok [OF vp] obtain out where
      r: "allocate_loopbacks_loop post out1 = Inr out" by blast
    from run p ne o r have res: "allocate_loopbacks intent = Inr out"
      by (simp add: allocate_loopbacks_loop_step)
    have pos: "out (?rs ! i) = Some (str_IPv6Address (network_address pool + (i + 1)) @ ''/128'')"
      if "i < length ?rs" and "?rs ! i \<notin> set (drop (Suc i) ?rs)" and "?rs ! i \<notin> ?later" for i
    proof -
      from allocate_loopbacks_loop_keeps [OF r that(3)] have "out (?rs ! i) = out1 (?rs ! i)" .
      also from assign_loopbacks_Inr [OF o] that(1,2)
      have "out1 (?rs ! i) = Some (str_IPv6Address (network_address pool + (1 + i)) @ ''/128'')"
        by blast
      finally show ?thesis by (simp add: add.commute)
    qed
    have dist: "out (?rs ! i) \<noteq> out (?rs ! j)"
      if "i < j" and "j < length ?rs"
        and "?rs ! i \<notin> set (drop (Suc i) ?rs)" and "?rs ! i \<notin> ?later"
        and "?rs ! j \<notin> set (drop (Suc j) ?rs)" and "?rs ! j \<notin> ?later" for i j
    proof
      assume eq: "out (?rs ! i) = out (?rs ! j)"
      from that have "i < length ?rs" by simp
      from pos [OF this that(3,4)] pos [OF that(2,5,6)] eq
      have "str_IPv6Address (network_address pool + (i + 1)) =
            str_IPv6Address (network_address pool + (j + 1))" by simp
      moreover from n that have "network_address pool + (i + 1) < 2 ^ 128"
        and "network_address pool + (j + 1) < 2 ^ 128" by simp_all
      ultimately have "network_address pool + (i + 1) = network_address pool + (j + 1)"
        by (rule str_IPv6Address_inj)
      with that(1) show False by simp
    qed
    from res p pos dist show ?thesis by blast
  qed
  from bad_len empty good show ?thesis by blast
qed

lemma IPv6Network_2001_100: "IPv6Network ''2001:100::/64'' =
    Inr \<lparr>network_address = 42540508444385446412220780372551532544, prefixlen = 64\<rparr>"
  by (simp add: ip_eval cong: and_then_weak_cong)

lemma IPv6Network_2001_200: "IPv6Network ''2001:200::/64'' =
    Inr \<lparr>network_address = 42540528726795050063891204319802818560, prefixlen = 64\<rparr>"
  by (simp add: ip_eval cong: and_then_weak_cong)

lemma IPv6Network_2001_200_48: "IPv6Network ''2001:200::/48'' =
    Inr \<lparr>network_address = 42540528726795050063891204319802818560, prefixlen = 48\<rparr>"
  by (simp add: ip_eval cong: and_then_weak_cong)

lemma str_2001_100_1: "str_IPv6Address 42540508444385446412220780372551532545 = ''2001:100::1''"
  by (simp add: ip_eval)

lemma str_2001_100_2: "str_IPv6Address 42540508444385446412220780372551532546 = ''2001:100::2''"
  by (simp add: ip_eval)

lemma str_2001_100_3: "str_IPv6Address 42540508444385446412220780372551532547 = ''2001:100::3''"
  by (simp add: ip_eval)

lemma str_2001_200_1: "str_IPv6Address 42540528726795050063891204319802818561 = ''2001:200::1''"
  by (simp add: ip_eval)

theorem allocate_loopbacks_positions_witness:
  "loopback_of two_as_intent ''R1'' = Some ''2001:100::1/128'' \<and>
   loopback_of two_as_intent ''R2'' = Some ''2001:100::2/128'' \<and>
   loopback_of two_as_intent ''R1'' \<noteq> loopback_of two_as_intent ''R2'' \<and>
   allocate_loopbacks bad_pool_intent = Inl InvalidPrefixLength"
proof -
  let ?as100 = "\<lparr>loopbacks_pool = ''2001:100::/64'', as_routers = Some [''R1'', ''R2''], igp = ospf_area0\<rparr>"
  let ?as200 = "\<lparr>loopbacks_pool = ''2001:200::/64'', as_routers = Some [''R3''], igp = no_igp\<rparr>"
  let ?as200' = "\<lparr>loopbacks_pool = ''2001:200::/48'', as_routers = Some [''R3''], igp = no_igp\<rparr>"
  have v100: "valid_as ?as100" and v200: "valid_as ?as200"
    by (simp_all add: valid_as_def get_routers_def IPv6Network_2001_100 IPv6Network_2001_200)
  have a: "ases two_as_intent = [] @ (100, ?as100) # [(200, ?as200)]"
    by (simp add: two_as_intent_def)
  from allocate_loopbacks_positions [OF a] v100 v200
  obtain out pool where
    res: "allocate_loopbacks two_as_intent = Inr out" and
    pool: "IPv6Network (loopbacks_pool ?as100) = Inr pool" and
    pos: "\<forall>i < length (get_routers ?as100).
            get_routers ?as100 ! i \<notin> set (drop (Suc i) (get_routers ?as100)) \<and>
            get_routers ?as100 ! i \<notin> (\<Union>a \<in> set [(200, ?as200)]. set (get_routers (snd a))) \<longrightarrow>
            out (get_routers ?as100 ! i) =
              Some (str_IPv6Address (network_address pool + (i + 1)) @ ''/128'')" and
    dist: "\<forall>i j. i < j \<and> j < length (get_routers ?as100) \<and>
            get_routers ?as100 ! i \<notin> set (drop (Suc i) (get_routers ?as100)) \<and>
            get_routers ?as100 ! i \<notin> (\<Union>a \<in> set [(200, ?as200)]. set (get_routers (snd a))) \<and>
            get_routers ?as100 ! j \<notin> set (drop (Suc j) (get_routers ?as100)) \<and>
            get_routers ?as100 ! j \<notin> (\<Union>a \<in> set [(200, ?as200)]. set (get_routers (snd a))) \<longrightarrow>
            out (get_routers ?as100 ! i) \<noteq> out (get_routers ?as100 ! j)"
    by auto
  from pool have base: "network_address pool = 42540508444385446412220780372551532544"
    by (auto simp: IPv6Network_2001_100)
  from pos [rule_format, of 0] base have r1: "out ''R1'' = Some ''2001:100::1/128''"
    by (simp add: get_routers_def str_2001_100_1)
  from pos [rule_format, of 1] base have r2: "out ''R2'' = Some ''2001:100::2/128''"
    by (simp add: get_routers_def str_2001_100_2)
  from dist [rule_format, of 0 1] have ne: "out ''R1'' \<noteq> out ''R2''"
    by (simp add: get_routers_def)
  have b: "ases bad_pool_intent = [(100, ?as100)] @ (200, ?as200') # []"
    by (simp add: bad_pool_intent_def two_as_intent_def)
  from allocate_loopbacks_positions [OF b] v100
  have bad: "allocate_loopbacks bad_pool_intent = Inl InvalidPrefixLength"
    by (simp add: IPv6Network_2001_200_48)
  from res r1 r2 ne bad show ?thesis by (simp add: loopback_of_def)
qed

text \<open>
  C6 as stated fails where a router list names a router twice: the list of AS 100 is
  R1, R2, R1, the pool is a /64, and R1, the router at position 1, holds pool base + 3,
  not pool base + 1.
\<close>

theorem repeated_router_counterexample:
  "IPv6Network (loopbacks_pool (snd (ases repeated_router_intent ! 0))) =
     Inr \<lparr>network_address = 42540508444385446412220780372551532544, prefixlen = 64\<rparr> \<and>
   get_routers (snd (ases repeated_router_intent ! 0)) ! 0 = ''R1'' \<and>
   loopback_of repeated_router_intent ''R1'' = Some ''2001:100::3/128'' \<and>
   loopback_of repeated_router_intent ''R1'' \<noteq>
     Some (str_IPv6Address (42540508444385446412220780372551532544 + 1) @ ''/128'')"
  by (simp add: repeated_router_intent_def loopback_of_def allocate_loopbacks_def get_routers_def
      IPv6Network_2001_100 add_IPv6Address_def str_2001_100_1 str_2001_100_2 str_2001_100_3)

end
